theory Spec2Isabelle
  imports Complex_Main "HOL-Library.AList" "HOL-Library.Log_Nat"
begin

unbundle bit_operations_syntax

section \<open>Python values and built-ins used by the two sketches\<close>

text \<open>
  The sketches accept any Python value and only ever look at its string form. The items
  modelled here are \<open>None\<close>, integers and strings. A string is a \<open>char list\<close>; the
  UTF-8 encoding step of the source is taken as part of the hash parameter below.
\<close>

datatype pyval = PyNone | PyInt int | PyStr string

datatype py_error = ValueError string | IndexError | ZeroDivisionError

text \<open>The decimal digits of an integer, with a minus sign when negative.\<close>

fun str_nat :: "nat \<Rightarrow> string" where
  "str_nat n =
     (if n < 10 then [char_of (48 + n)]
      else str_nat (n div 10) @ [char_of (48 + n mod 10)])"

declare str_nat.simps [simp del]

definition str_int :: "int \<Rightarrow> string" where
  "str_int i = (if i < 0 then CHR ''-'' # str_nat (nat (- i)) else str_nat (nat i))"

text \<open>
  \<open>str(i)\<close> for an integer \<open>i\<close>: CPython refuses the conversion to decimal of an
  integer of more than \<open>sys.int_max_str_digits\<close> digits (4300 unless reconfigured), the
  sign not counted, and raises \<open>ValueError\<close>.
\<close>

definition int_max_str_digits :: nat where
  "int_max_str_digits = 4300"

definition py_str_int :: "int \<Rightarrow> py_error + string" where
  "py_str_int i =
     (if 10 ^ int_max_str_digits \<le> \<bar>i\<bar>
      then Inl (ValueError ''Exceeds the limit (4300 digits) for integer string conversion'')
      else Inr (str_int i))"

text \<open>The built-in \<open>str\<close>: \<open>str(None)\<close> is the four characters \<open>None\<close>.\<close>

fun py_str :: "pyval \<Rightarrow> py_error + string" where
  "py_str PyNone = Inr ''None''"
| "py_str (PyInt i) = py_str_int i"
| "py_str (PyStr s) = Inr s"

text \<open>
  List subscription \<open>xs[i]\<close>: an index in \<open>[0, len)\<close> is used as it is, one in
  \<open>[-len, 0)\<close> counts from the end, any other raises \<open>IndexError\<close> (\<open>None\<close> here).
\<close>

definition py_index :: "'a list \<Rightarrow> int \<Rightarrow> nat option" where
  "py_index xs i =
     (let n = int (length xs)
      in if 0 \<le> i \<and> i < n then Some (nat i)
         else if - n \<le> i \<and> i < 0 then Some (nat (n + i))
         else None)"

text \<open>
  The hash of the standard library is a parameter of the model: \<open>H s\<close> stands for
  \<open>int(hashlib.sha256(s.encode("utf-8")).hexdigest(), 16)\<close> in the filter and for the
  same expression with \<open>sha1\<close> in the estimator. It is a natural number.
\<close>

type_synonym hashfun = "string \<Rightarrow> nat"

section \<open>task_1_bloom_filter/bloom_filter_passwords.py\<close>

record BloomFilter =
  size_bf :: int
  num_hashes :: int
  bit_array :: "int list"

text \<open>\<open>BloomFilter.__init__\<close>: both checks come before any attribute is assigned.\<close>

definition BloomFilter_init :: "int \<Rightarrow> int \<Rightarrow> py_error + BloomFilter" where
  "BloomFilter_init sz k =
     (if sz \<le> 0 then Inl (ValueError ''size must be positive'')
      else if k \<le> 0 then Inl (ValueError ''num_hashes must be positive'')
      else Inr \<lparr>size_bf = sz, num_hashes = k, bit_array = replicate (nat sz) 0\<rparr>)"

text \<open>\<open>BloomFilter._normalize\<close>: \<open>str\<close> is not called on \<open>None\<close>.\<close>

definition BloomFilter_normalize :: "pyval \<Rightarrow> py_error + string" where
  "BloomFilter_normalize item = (if item = PyNone then Inr [] else py_str item)"

text \<open>
  \<open>BloomFilter._hashes\<close> is a generator. Its first step computes \<open>s\<close>, the normalized
  item, once; the callers below do that step before their loop, so that it happens (and
  may raise) even when \<open>range(self.num_hashes)\<close> is empty. The element for the salt
  \<open>i\<close> then hashes \<open>s + str(i)\<close>, where \<open>str(i)\<close> may raise as above, and reduces
  the digest modulo \<open>self.size\<close>; the reduction raises \<open>ZeroDivisionError\<close> when the
  size is zero. Python's \<open>%\<close> on integers rounds as \<open>mod\<close> on \<open>int\<close> does.
\<close>

definition hashes_data :: "string \<Rightarrow> int \<Rightarrow> py_error + string" where
  "hashes_data s i = (case py_str (PyInt i) of Inl e \<Rightarrow> Inl e | Inr t \<Rightarrow> Inr (s @ t))"

definition hashes_at :: "hashfun \<Rightarrow> BloomFilter \<Rightarrow> string \<Rightarrow> int \<Rightarrow> py_error + int" where
  "hashes_at H self s i =
     (case hashes_data s i of
        Inl e \<Rightarrow> Inl e
      | Inr data \<Rightarrow>
          if size_bf self = 0 then Inl ZeroDivisionError
          else Inr (int (H data) mod size_bf self))"

definition py_range :: "int \<Rightarrow> int list" where
  "py_range n = map int [0..<nat n]"

text \<open>
  \<open>BloomFilter.add\<close>: the loop body stores 1 at each position in turn. A method returns
  its result (or the exception raised) together with the object as it then is, so that
  an exception in the middle of the loop keeps the bits already stored.
\<close>

fun add_loop :: "hashfun \<Rightarrow> string \<Rightarrow> int list \<Rightarrow> BloomFilter \<Rightarrow> (py_error + unit) \<times> BloomFilter" where
  "add_loop H s [] self = (Inr (), self)"
| "add_loop H s (i # rest) self =
     (case hashes_at H self s i of
        Inl e \<Rightarrow> (Inl e, self)
      | Inr pos \<Rightarrow>
          (case py_index (bit_array self) pos of
             None \<Rightarrow> (Inl IndexError, self)
           | Some j \<Rightarrow> add_loop H s rest (self\<lparr>bit_array := (bit_array self)[j := 1]\<rparr>)))"

definition BloomFilter_add :: "hashfun \<Rightarrow> pyval \<Rightarrow> BloomFilter \<Rightarrow> (py_error + unit) \<times> BloomFilter" where
  "BloomFilter_add H item self =
     (case BloomFilter_normalize item of
        Inl e \<Rightarrow> (Inl e, self)
      | Inr s \<Rightarrow> add_loop H s (py_range (num_hashes self)) self)"

text \<open>
  \<open>BloomFilter.__contains__\<close>: \<open>all\<close> stops at the first position whose entry is falsy
  (the integer 0), so later positions are neither computed nor read.
\<close>

fun contains_loop :: "hashfun \<Rightarrow> string \<Rightarrow> int list \<Rightarrow> BloomFilter \<Rightarrow> py_error + bool" where
  "contains_loop H s [] self = Inr True"
| "contains_loop H s (i # rest) self =
     (case hashes_at H self s i of
        Inl e \<Rightarrow> Inl e
      | Inr pos \<Rightarrow>
          (case py_index (bit_array self) pos of
             None \<Rightarrow> Inl IndexError
           | Some j \<Rightarrow>
               if bit_array self ! j = 0 then Inr False
               else contains_loop H s rest self))"

definition BloomFilter_contains :: "hashfun \<Rightarrow> pyval \<Rightarrow> BloomFilter \<Rightarrow> (py_error + bool) \<times> BloomFilter" where
  "BloomFilter_contains H item self =
     (case BloomFilter_normalize item of
        Inl e \<Rightarrow> (Inl e, self)
      | Inr s \<Rightarrow> (contains_loop H s (py_range (num_hashes self)) self, self))"

text \<open>
  \<open>check_password_uniqueness\<close>: the report is a dictionary from \<open>str(pwd)\<close> to a label.
  A Python dictionary keeps the position of a key that is stored again, as
  \<open>AList.update\<close> does. The two labels of the source are Ukrainian text; they are
  modelled by a two-valued type.
\<close>

datatype status = Already_used | Unique

fun check_loop :: "hashfun \<Rightarrow> pyval list \<Rightarrow> (string \<times> status) list \<Rightarrow> BloomFilter
    \<Rightarrow> (py_error + (string \<times> status) list) \<times> BloomFilter" where
  "check_loop H [] results bloom = (Inr results, bloom)"
| "check_loop H (pwd # rest) results bloom =
     (case BloomFilter_contains H pwd bloom of
        (Inl e, bloom1) \<Rightarrow> (Inl e, bloom1)
      | (Inr already_used, bloom1) \<Rightarrow>
          (case (if already_used then (Inr Already_used, bloom1)
                 else (case BloomFilter_add H pwd bloom1 of
                         (Inl e, bloom2) \<Rightarrow> (Inl e, bloom2)
                       | (Inr u, bloom2) \<Rightarrow> (Inr Unique, bloom2))) of
             (Inl e, bloom2) \<Rightarrow> (Inl e, bloom2)
           | (Inr status, bloom2) \<Rightarrow>
               (case py_str pwd of
                  Inl e \<Rightarrow> (Inl e, bloom2)
                | Inr key \<Rightarrow> check_loop H rest (AList.update key status results) bloom2)))"

definition check_password_uniqueness :: "hashfun \<Rightarrow> BloomFilter \<Rightarrow> pyval list
    \<Rightarrow> (py_error + (string \<times> status) list) \<times> BloomFilter" where
  "check_password_uniqueness H bloom new_passwords = check_loop H new_passwords [] bloom"

section \<open>task_2_hyper_log_log/hll_vs_exact.py\<close>

record HyperLogLog =
  p_hll :: int
  m_hll :: int
  registers :: "int list"

definition MAX_BITS :: int where
  "MAX_BITS = 64"

text \<open>The shifts \<open><<\<close> and \<open>>>\<close> raise \<open>ValueError\<close> on a negative shift count.\<close>

definition py_lshift :: "int \<Rightarrow> int \<Rightarrow> py_error + int" where
  "py_lshift a n =
     (if n < 0 then Inl (ValueError ''negative shift count'') else Inr (push_bit (nat n) a))"

definition py_rshift :: "int \<Rightarrow> int \<Rightarrow> py_error + int" where
  "py_rshift a n =
     (if n < 0 then Inl (ValueError ''negative shift count'') else Inr (drop_bit (nat n) a))"

text \<open>\<open>HyperLogLog.__init__\<close>.\<close>

definition HyperLogLog_init :: "int \<Rightarrow> py_error + HyperLogLog" where
  "HyperLogLog_init p =
     (if \<not> (4 \<le> p \<and> p \<le> 16) then Inl (ValueError ''p must be in [4, 16]'')
      else (let m = push_bit (nat p) 1
            in Inr \<lparr>p_hll = p, m_hll = m, registers = replicate (nat m) 0\<rparr>))"

text \<open>
  \<open>HyperLogLog._hash\<close>: the digest of \<open>str(value)\<close>, masked to its low 64 bits;
  \<open>str(value)\<close> may raise.
\<close>

definition hash_data :: "pyval \<Rightarrow> py_error + string" where
  "hash_data v = py_str v"

definition HyperLogLog_hash :: "hashfun \<Rightarrow> pyval \<Rightarrow> py_error + int" where
  "HyperLogLog_hash H v =
     (case hash_data v of
        Inl e \<Rightarrow> Inl e
      | Inr d \<Rightarrow> Inr (int (H d) AND (push_bit (nat MAX_BITS) 1 - 1)))"

text \<open>
  \<open>HyperLogLog._rho\<close>. \<open>int.bit_length\<close> is the number of binary digits of the absolute
  value, which \<open>bitlen\<close> of the library computes for a non-negative integer.
\<close>

definition HyperLogLog_rho :: "HyperLogLog \<Rightarrow> int \<Rightarrow> int" where
  "HyperLogLog_rho self w =
     (let bits = MAX_BITS - p_hll self
      in if w = 0 then bits + 1
         else (let leading_zeros = bits - bitlen \<bar>w\<bar> in leading_zeros + 1))"

text \<open>\<open>HyperLogLog.add\<close>.\<close>

definition HyperLogLog_add :: "hashfun \<Rightarrow> pyval \<Rightarrow> HyperLogLog \<Rightarrow> (py_error + unit) \<times> HyperLogLog" where
  "HyperLogLog_add H v self =
     (case HyperLogLog_hash H v of
        Inl e \<Rightarrow> (Inl e, self)
      | Inr x \<Rightarrow>
          (case py_rshift x (MAX_BITS - p_hll self) of
             Inl e \<Rightarrow> (Inl e, self)
           | Inr idx \<Rightarrow>
               (case py_lshift 1 (MAX_BITS - p_hll self) of
                  Inl e \<Rightarrow> (Inl e, self)
                | Inr sh \<Rightarrow>
                    (let w = x AND (sh - 1); rho = HyperLogLog_rho self w
                     in case py_index (registers self) idx of
                          None \<Rightarrow> (Inl IndexError, self)
                        | Some j \<Rightarrow>
                            if rho > registers self ! j
                            then (Inr (), self\<lparr>registers := (registers self)[j := rho]\<rparr>)
                            else (Inr (), self)))))"

text \<open>
  \<open>HyperLogLog.count\<close>, read in exact arithmetic: the floats are real numbers here,
  and rounding, overflow and underflow are not modelled. An estimate within rounding
  distance of a threshold may therefore take another branch in the code than in this
  reading, which is used where the estimate is far from the thresholds; \<open>count_fp\<close>
  below keeps the rounding. \<open>math.log\<close> raises \<open>ValueError\<close> outside its domain, and
  a division by zero raises \<open>ZeroDivisionError\<close>.
\<close>

definition math_log :: "real \<Rightarrow> py_error + real" where
  "math_log x = (if x \<le> 0 then Inl (ValueError ''math domain error'') else Inr (ln x))"

definition alpha_m :: "int \<Rightarrow> py_error + real" where
  "alpha_m m =
     (if m = 16 then Inr 0.673
      else if m = 32 then Inr 0.697
      else if m = 64 then Inr 0.709
      else if m = 0 then Inl ZeroDivisionError
      else Inr (0.7213 / (1 + 1.079 / real_of_int m)))"

definition count_value :: "HyperLogLog \<Rightarrow> py_error + real" where
  "count_value self =
     (let m = m_hll self; regs = registers self
      in case alpha_m m of
           Inl e \<Rightarrow> Inl e
         | Inr a \<Rightarrow>
             (let Z = sum_list (map (\<lambda>v. 2 powi (- v)) regs)
              in if Z = 0 then Inl ZeroDivisionError
                 else (let E = a * real_of_int (m ^ 2) / Z; V = count_list regs 0
                       in case (if E \<le> 5 * real_of_int m / 2 \<and> V \<noteq> 0
                                then (case math_log (real_of_int m / real V) of
                                        Inl e \<Rightarrow> Inl e
                                      | Inr l \<Rightarrow> Inr (real_of_int m * l))
                                else Inr E) of
                            Inl e \<Rightarrow> Inl e
                          | Inr E1 \<Rightarrow>
                              (let TWO_32 = real_of_int (push_bit 32 1)
                               in if E1 > TWO_32 / 30
                                  then (case math_log (1 - E1 / TWO_32) of
                                          Inl e \<Rightarrow> Inl e
                                        | Inr l \<Rightarrow> Inr (- TWO_32 * l))
                                  else Inr E1))))"

definition HyperLogLog_count :: "HyperLogLog \<Rightarrow> (py_error + real) \<times> HyperLogLog" where
  "HyperLogLog_count self = (count_value self, self)"

text \<open>
  \<open>HyperLogLog.count\<close> once more, with the rounding of the float arithmetic made
  explicit. Three parameters stand for the platform: \<open>fl\<close> rounds a real number to the
  float that a literal, a product, a quotient, a sum or a difference yields; \<open>fsum\<close> is
  the built-in \<open>sum\<close> on a non-empty list of floats (a running sum up to Python 3.11, a
  compensated one since); \<open>flog\<close> is \<open>math.log\<close> on a positive float. Integers are
  converted exactly and \<open>2.0 ** -v\<close> is an exact power of two; overflow and underflow
  are not modelled, and none occurs on a constructed estimator. The function
  \<open>count_value\<close> above is this one with exact arithmetic.
\<close>

definition fp_log :: "(real \<Rightarrow> real) \<Rightarrow> real \<Rightarrow> py_error + real" where
  "fp_log flog x = (if x \<le> 0 then Inl (ValueError ''math domain error'') else Inr (flog x))"

definition alpha_m_fp :: "(real \<Rightarrow> real) \<Rightarrow> int \<Rightarrow> py_error + real" where
  "alpha_m_fp fl m =
     (if m = 16 then Inr (fl 0.673)
      else if m = 32 then Inr (fl 0.697)
      else if m = 64 then Inr (fl 0.709)
      else if m = 0 then Inl ZeroDivisionError
      else (let d = fl (1 + fl (fl 1.079 / real_of_int m))
            in if d = 0 then Inl ZeroDivisionError else Inr (fl (fl 0.7213 / d))))"

definition count_fp :: "(real \<Rightarrow> real) \<Rightarrow> (real list \<Rightarrow> real) \<Rightarrow> (real \<Rightarrow> real) \<Rightarrow> HyperLogLog
    \<Rightarrow> py_error + real" where
  "count_fp fl fsum flog self =
     (let m = m_hll self; regs = registers self
      in case alpha_m_fp fl m of
           Inl e \<Rightarrow> Inl e
         | Inr a \<Rightarrow>
             (let Z = (if regs = [] then 0 else fsum (map (\<lambda>v. 2 powi (- v)) regs))
              in if Z = 0 then Inl ZeroDivisionError
                 else (let E = fl (fl (a * real_of_int (m ^ 2)) / Z); V = count_list regs 0
                       in case (if E \<le> fl (fl (5 * real_of_int m) / 2) \<and> V \<noteq> 0
                                then (case fp_log flog (fl (real_of_int m / real V)) of
                                        Inl e \<Rightarrow> Inl e
                                      | Inr l \<Rightarrow> Inr (fl (real_of_int m * l)))
                                else Inr E) of
                            Inl e \<Rightarrow> Inl e
                          | Inr E1 \<Rightarrow>
                              (let TWO_32 = real_of_int (push_bit 32 1)
                               in if E1 > fl (TWO_32 / 30)
                                  then (case fp_log flog (fl (1 - fl (E1 / TWO_32))) of
                                          Inl e \<Rightarrow> Inl e
                                        | Inr l \<Rightarrow> Inr (fl (- TWO_32 * l)))
                                  else Inr E1))))"

definition HyperLogLog_count_fp :: "(real \<Rightarrow> real) \<Rightarrow> (real list \<Rightarrow> real) \<Rightarrow> (real \<Rightarrow> real)
    \<Rightarrow> HyperLogLog \<Rightarrow> (py_error + real) \<times> HyperLogLog" where
  "HyperLogLog_count_fp fl fsum flog self = (count_fp fl fsum flog self, self)"

section \<open>Callers and invariants of the filter\<close>

text \<open>
  A sequence of \<open>add\<close> calls on one filter. Each call is made on the filter as the
  call before left it, whether that call returned or raised, and the outcome of every
  call is kept.
\<close>

fun add_each :: "hashfun \<Rightarrow> pyval list \<Rightarrow> BloomFilter \<Rightarrow> (py_error + unit) list \<times> BloomFilter" where
  "add_each H [] bloom = ([], bloom)"
| "add_each H (password # rest) bloom =
     (case BloomFilter_add H password bloom of
        (r, bloom1) \<Rightarrow> (case add_each H rest bloom1 of (rs, bloom2) \<Rightarrow> (r # rs, bloom2)))"

text \<open>What \<open>__init__\<close> establishes and \<open>add\<close> keeps: a positive size and that many bits.\<close>

definition bf_valid :: "BloomFilter \<Rightarrow> bool" where
  "bf_valid self \<longleftrightarrow> 0 < size_bf self \<and> length (bit_array self) = nat (size_bf self)"

text \<open>
  What any \<open>add\<close> leaves as it was: the size, the number of hashes and the length of the
  bit array; an entry that is 1 stays 1 and an entry that is not 0 stays so.
\<close>

definition bf_frame :: "BloomFilter \<Rightarrow> BloomFilter \<Rightarrow> bool" where
  "bf_frame self self' \<longleftrightarrow>
     size_bf self' = size_bf self \<and> num_hashes self' = num_hashes self \<and>
     length (bit_array self') = length (bit_array self) \<and>
     (\<forall>j < length (bit_array self).
        (bit_array self ! j = 1 \<longrightarrow> bit_array self' ! j = 1) \<and>
        (bit_array self ! j \<noteq> 0 \<longrightarrow> bit_array self' ! j \<noteq> 0))"

text \<open>The probe for the salt \<open>i\<close> finds a position, and the entry there is set.\<close>

definition probe_set :: "hashfun \<Rightarrow> BloomFilter \<Rightarrow> string \<Rightarrow> int \<Rightarrow> bool" where
  "probe_set H self s i =
     (case hashes_at H self s i of
        Inl e \<Rightarrow> False
      | Inr pos \<Rightarrow>
          (case py_index (bit_array self) pos of
             None \<Rightarrow> False
           | Some j \<Rightarrow> bit_array self ! j \<noteq> 0))"

definition holds_item :: "hashfun \<Rightarrow> pyval \<Rightarrow> BloomFilter \<Rightarrow> bool" where
  "holds_item H item self =
     (case BloomFilter_normalize item of
        Inl e \<Rightarrow> False
      | Inr s \<Rightarrow> list_all (probe_set H self s) (py_range (num_hashes self)))"

section \<open>Callers and invariants of the estimator\<close>

text \<open>
  A sequence of \<open>add\<close> calls, as in the loop \<open>for ip in ips: hll.add(ip)\<close> of
  \<open>measure_hll\<close>; an exception ends the sequence.
\<close>

fun hll_add_all :: "hashfun \<Rightarrow> pyval list \<Rightarrow> HyperLogLog \<Rightarrow> (py_error + unit) \<times> HyperLogLog" where
  "hll_add_all H [] hll = (Inr (), hll)"
| "hll_add_all H (ip # rest) hll =
     (case HyperLogLog_add H ip hll of
        (Inl e, hll1) \<Rightarrow> (Inl e, hll1)
      | (Inr u, hll1) \<Rightarrow> hll_add_all H rest hll1)"

text \<open>
  A sequence of \<open>add\<close> calls in which each call is made on the estimator as the call
  before left it, whether that call returned or raised; the outcome of every call is
  kept.
\<close>

fun hll_add_each :: "hashfun \<Rightarrow> pyval list \<Rightarrow> HyperLogLog \<Rightarrow> (py_error + unit) list \<times> HyperLogLog" where
  "hll_add_each H [] hll = ([], hll)"
| "hll_add_each H (ip # rest) hll =
     (case HyperLogLog_add H ip hll of
        (r, hll1) \<Rightarrow> (case hll_add_each H rest hll1 of (rs, hll2) \<Rightarrow> (r # rs, hll2)))"

text \<open>The outcome of \<open>add\<close> on a constructed estimator: it raises what \<open>str\<close> raises.\<close>

definition add_outcome :: "pyval \<Rightarrow> py_error + unit" where
  "add_outcome v = (case hash_data v of Inl e \<Rightarrow> Inl e | Inr d \<Rightarrow> Inr ())"

text \<open>
  What \<open>__init__\<close> establishes and \<open>add\<close> keeps: a precision in 4..16, \<open>2 ^ p\<close>
  registers, each between 0 and \<open>(MAX_BITS - p) + 1\<close>.
\<close>

definition hll_valid :: "HyperLogLog \<Rightarrow> bool" where
  "hll_valid self \<longleftrightarrow>
     4 \<le> p_hll self \<and> p_hll self \<le> 16 \<and> m_hll self = 2 ^ nat (p_hll self) \<and>
     length (registers self) = nat (m_hll self) \<and>
     (\<forall>r \<in> set (registers self). 0 \<le> r \<and> r \<le> (MAX_BITS - p_hll self) + 1)"

text \<open>
  The specification's words for \<open>rho\<close>: the number of leading zero bits of \<open>w\<close> seen
  as a field of \<open>width\<close> bits, counted from the most significant bit down.
\<close>

definition leading_zero_bits :: "nat \<Rightarrow> int \<Rightarrow> nat" where
  "leading_zero_bits width w = length (takeWhile (\<lambda>k. \<not> bit w k) (rev [0..<width]))"

text \<open>
  Sample values of the hash parameter: the SHA-1 digests, read as integers, of sixteen
  decimal strings. \<open>sha1_sample\<close> agrees with SHA-1 on these strings; on any other
  string it is 0, which is not that string's digest.
\<close>

definition sha1_digests :: "(string \<times> nat) list" where
  "sha1_digests =
    [(''511658987'', 282626491894993838146713591597959485199140427811),
     (''3511228267'', 219754210403531857822413611746335637114439720790),
     (''1853372825'', 966105271564927363095470338149577901325607824789),
     (''2855183258'', 598229171781387421090787844557528290236671592153),
     (''715906921'', 854380022950218440191449120695160750567973503204),
     (''5594465669'', 764646756779646530273419143041215301885646766598),
     (''1971066763'', 289706277149503342646922944257143787609860722806),
     (''4144281939'', 1339772141095633371169040675588253463436887124585),
     (''1738068935'', 428526097395902527461249162194347512950996080990),
     (''3383101817'', 523808461002303036673715418290691046585325564405),
     (''4729903857'', 1136063931815056484792382352528624287173994368579),
     (''2965323993'', 305993223524957990157755232836730011191347963059),
     (''5746606839'', 424568714019929287857228586692644441154908892422),
     (''3407338141'', 142804299618441121898914728717186765254510770961),
     (''4307090543'', 674114112205494246012631293912401048773340119995),
     (''5405874656'', 1378657830623070448788075419810494426196044635544)]"

definition sha1_sample :: hashfun where
  "sha1_sample s = (case map_of sha1_digests s of Some h \<Rightarrow> h | None \<Rightarrow> 0)"

section \<open>The estimate in the specification's words\<close>

text \<open>
  The bias constant, the sum \<open>Z\<close> over the registers, the raw estimate
  \<open>alpha * m^2 / Z\<close>, the number of zero registers, the linear-counting value
  \<open>m * ln (m / V)\<close>, the condition of the small-range correction, and the estimate
  after that correction.
\<close>

definition spec_alpha :: "int \<Rightarrow> real" where
  "spec_alpha m =
     (if m = 16 then 0.673 else if m = 32 then 0.697 else if m = 64 then 0.709
      else 0.7213 / (1 + 1.079 / real_of_int m))"

definition spec_Z :: "int list \<Rightarrow> real" where
  "spec_Z regs = sum_list (map (\<lambda>r. 2 powr (- real_of_int r)) regs)"

definition zero_registers :: "int list \<Rightarrow> nat" where
  "zero_registers regs = length (filter (\<lambda>r. r = 0) regs)"

definition raw_estimate :: "HyperLogLog \<Rightarrow> real" where
  "raw_estimate self = spec_alpha (m_hll self) * (real_of_int (m_hll self))\<^sup>2 / spec_Z (registers self)"

definition linear_counting :: "HyperLogLog \<Rightarrow> real" where
  "linear_counting self =
     real_of_int (m_hll self) * ln (real_of_int (m_hll self) / real (zero_registers (registers self)))"

definition small_range :: "HyperLogLog \<Rightarrow> bool" where
  "small_range self \<longleftrightarrow>
     raw_estimate self \<le> 2.5 * real_of_int (m_hll self) \<and> 0 < zero_registers (registers self)"

definition corrected_estimate :: "HyperLogLog \<Rightarrow> real" where
  "corrected_estimate self = (if small_range self then linear_counting self else raw_estimate self)"

text \<open>
  What the estimate needs of the float arithmetic: rounding is monotone and leaves the
  halves of integers up to \<open>2^34\<close> in absolute value as they are; the sum of a non-empty
  list of positive floats is positive; the logarithm of a float between 1 and 65536 lies
  between 0 and 16. Round-to-nearest on doubles, either summation and a library
  logarithm meet this, and so does exact arithmetic.
\<close>

definition fp_sane :: "(real \<Rightarrow> real) \<Rightarrow> (real list \<Rightarrow> real) \<Rightarrow> (real \<Rightarrow> real) \<Rightarrow> bool" where
  "fp_sane fl fsum flog \<longleftrightarrow>
     (\<forall>x y. x \<le> y \<longrightarrow> fl x \<le> fl y) \<and>
     (\<forall>n::int. \<bar>n\<bar> \<le> 2 ^ 34 \<longrightarrow> fl (real_of_int n / 2) = real_of_int n / 2) \<and>
     (\<forall>xs. xs \<noteq> [] \<and> (\<forall>x \<in> set xs. 0 < x) \<longrightarrow> 0 < fsum xs) \<and>
     (\<forall>x. 1 \<le> x \<and> x \<le> 65536 \<longrightarrow> 0 \<le> flog x \<and> flog x \<le> 16)"

text \<open>
  The quantities of the specification as the floats compute them: every operation is
  followed by the rounding.
\<close>

definition alpha_fp :: "(real \<Rightarrow> real) \<Rightarrow> int \<Rightarrow> real" where
  "alpha_fp fl m =
     (if m = 16 then fl 0.673 else if m = 32 then fl 0.697 else if m = 64 then fl 0.709
      else fl (fl 0.7213 / fl (1 + fl (fl 1.079 / real_of_int m))))"

definition Z_fp :: "(real list \<Rightarrow> real) \<Rightarrow> int list \<Rightarrow> real" where
  "Z_fp fsum regs = fsum (map (\<lambda>r. 2 powr (- real_of_int r)) regs)"

definition raw_estimate_fp :: "(real \<Rightarrow> real) \<Rightarrow> (real list \<Rightarrow> real) \<Rightarrow> HyperLogLog \<Rightarrow> real" where
  "raw_estimate_fp fl fsum self =
     fl (fl (alpha_fp fl (m_hll self) * (real_of_int (m_hll self))\<^sup>2) / Z_fp fsum (registers self))"

definition linear_counting_fp :: "(real \<Rightarrow> real) \<Rightarrow> (real \<Rightarrow> real) \<Rightarrow> HyperLogLog \<Rightarrow> real" where
  "linear_counting_fp fl flog self =
     fl (real_of_int (m_hll self) *
         flog (fl (real_of_int (m_hll self) / real (zero_registers (registers self)))))"

definition small_range_fp :: "(real \<Rightarrow> real) \<Rightarrow> (real list \<Rightarrow> real) \<Rightarrow> HyperLogLog \<Rightarrow> bool" where
  "small_range_fp fl fsum self \<longleftrightarrow>
     raw_estimate_fp fl fsum self \<le> 2.5 * real_of_int (m_hll self) \<and>
     0 < zero_registers (registers self)"

text \<open>
  Sixteen items, one for each register of an estimator of precision 4, whose SHA-1
  digests are the entries of \<open>sha1_digests\<close>.
\<close>

definition saturating_items :: "pyval list" where
  "saturating_items =
     [PyStr ''511658987'', PyStr ''3511228267'', PyStr ''1853372825'', PyStr ''2855183258'', PyStr ''715906921'', PyStr ''5594465669'', PyStr ''1971066763'', PyStr ''4144281939'', PyStr ''1738068935'', PyStr ''3383101817'', PyStr ''4729903857'', PyStr ''2965323993'', PyStr ''5746606839'', PyStr ''3407338141'', PyStr ''4307090543'', PyStr ''5405874656'']"


section \<open>Construction\<close>

text \<open>
  C9. Construction of a filter fails, with a \<open>ValueError\<close>, exactly when the size or the
  number of hashes is not positive, and construction of an estimator exactly when the
  precision is outside 4..16. A failed construction yields the error and no object. A
  successful one yields a filter whose bit array is \<open>size\<close> zeros, and an estimator with
  \<open>2 ^ p\<close> registers, all zero.
\<close>

theorem construction_validation:
  "(isl (BloomFilter_init sz k) \<longleftrightarrow> sz \<le> 0 \<or> k \<le> 0) \<and>
   (sz \<le> 0 \<or> k \<le> 0 \<longrightarrow> (\<exists>msg. BloomFilter_init sz k = Inl (ValueError msg))) \<and>
   (0 < sz \<and> 0 < k \<longrightarrow>
      BloomFilter_init sz k = Inr \<lparr>size_bf = sz, num_hashes = k, bit_array = replicate (nat sz) 0\<rparr>) \<and>
   (isl (HyperLogLog_init p) \<longleftrightarrow> p < 4 \<or> 16 < p) \<and>
   (p < 4 \<or> 16 < p \<longrightarrow> (\<exists>msg. HyperLogLog_init p = Inl (ValueError msg))) \<and>
   (4 \<le> p \<and> p \<le> 16 \<longrightarrow>
      HyperLogLog_init p = Inr \<lparr>p_hll = p, m_hll = 2 ^ nat p, registers = replicate (2 ^ nat p) 0\<rparr>)"
  by (auto simp: BloomFilter_init_def HyperLogLog_init_def Let_def push_bit_eq_mult)

theorem construction_validation_witness:
  "BloomFilter_init 1000 3 = Inr \<lparr>size_bf = 1000, num_hashes = 3, bit_array = replicate 1000 0\<rparr> \<and>
   (\<exists>msg. BloomFilter_init 0 3 = Inl (ValueError msg)) \<and>
   (\<exists>msg. BloomFilter_init 5 0 = Inl (ValueError msg)) \<and>
   HyperLogLog_init 4 = Inr \<lparr>p_hll = 4, m_hll = 16, registers = replicate 16 0\<rparr> \<and>
   (\<exists>msg. HyperLogLog_init 3 = Inl (ValueError msg)) \<and>
   (\<exists>msg. HyperLogLog_init 17 = Inl (ValueError msg))"
  using construction_validation [of 1000 3 4] construction_validation [of 0 3 3]
    construction_validation [of 5 0 17]
  by simp

section \<open>String forms of integers\<close>

lemma py_str_int_small: "\<bar>i\<bar> < 10 ^ int_max_str_digits \<Longrightarrow> py_str_int i = Inr (str_int i)"
  by (simp add: py_str_int_def)

lemma py_str_int_digit: "\<bar>i\<bar> < 10 \<Longrightarrow> py_str_int i = Inr (str_int i)"
proof -
  assume "\<bar>i\<bar> < 10"
  moreover have "(10::int) ^ 1 \<le> 10 ^ int_max_str_digits"
    by (rule power_increasing) (simp_all add: int_max_str_digits_def)
  ultimately have "\<bar>i\<bar> < 10 ^ int_max_str_digits" by simp
  then show ?thesis by (rule py_str_int_small)
qed

lemma py_str_int_big:
  "10 ^ int_max_str_digits \<le> \<bar>i\<bar> \<Longrightarrow>
   py_str_int i = Inl (ValueError ''Exceeds the limit (4300 digits) for integer string conversion'')"
  by (simp add: py_str_int_def)

lemma py_str_int_limit:
  "py_str_int (10 ^ int_max_str_digits) =
     Inl (ValueError ''Exceeds the limit (4300 digits) for integer string conversion'')"
  by (rule py_str_int_big) simp

lemma small_le_limit: "(3::int) \<le> 10 ^ int_max_str_digits"
proof -
  have "(10::int) ^ 1 \<le> 10 ^ int_max_str_digits"
    by (rule power_increasing) (simp_all add: int_max_str_digits_def)
  then show ?thesis by simp
qed

section \<open>What add leaves and what it sets\<close>

lemma bf_valid_init: "BloomFilter_init sz k = Inr bf \<Longrightarrow> bf_valid bf \<and> num_hashes bf = k"
  by (auto simp: BloomFilter_init_def bf_valid_def split: if_splits)

lemma py_index_less: "py_index xs i = Some j \<Longrightarrow> j < length xs"
  by (auto simp: py_index_def Let_def split: if_splits)

lemma py_index_length_cong: "length xs = length ys \<Longrightarrow> py_index xs i = py_index ys i"
  by (simp add: py_index_def)

lemma hashes_at_size_cong: "size_bf s' = size_bf s \<Longrightarrow> hashes_at H s' t i = hashes_at H s t i"
  by (simp add: hashes_at_def split: sum.splits)

lemma bf_frame_refl: "bf_frame self self"
  by (simp add: bf_frame_def)

lemma bf_frame_trans: "bf_frame a b \<Longrightarrow> bf_frame b c \<Longrightarrow> bf_frame a c"
  by (simp add: bf_frame_def)

lemma bf_frame_update:
  assumes "j < length (bit_array self)"
  shows "bf_frame self (self\<lparr>bit_array := (bit_array self)[j := 1]\<rparr>)"
  using assms by (simp add: bf_frame_def nth_list_update)

lemma add_loop_frame: "add_loop H s js self = (r, self') \<Longrightarrow> bf_frame self self'"
proof (induction js arbitrary: self)
  case Nil
  then show ?case by (simp add: bf_frame_refl)
next
  case (Cons i js)
  show ?case
  proof (cases "hashes_at H self s i")
    case (Inl e)
    with Cons.prems show ?thesis by (simp add: bf_frame_refl)
  next
    case (Inr pos)
    show ?thesis
    proof (cases "py_index (bit_array self) pos")
      case None
      with Inr Cons.prems show ?thesis by (simp add: bf_frame_refl)
    next
      case (Some j)
      let ?s1 = "self\<lparr>bit_array := (bit_array self)[j := 1]\<rparr>"
      from Inr Some Cons.prems have "add_loop H s js ?s1 = (r, self')" by simp
      from Cons.IH [OF this] bf_frame_update [OF py_index_less [OF Some]]
      show ?thesis by (rule bf_frame_trans [rotated])
    qed
  qed
qed

lemma probe_set_frame: "bf_frame self self' \<Longrightarrow> probe_set H self s i \<Longrightarrow> probe_set H self' s i"
proof -
  assume f: "bf_frame self self'" and p: "probe_set H self s i"
  from p obtain pos j where
    h: "hashes_at H self s i = Inr pos" and x: "py_index (bit_array self) pos = Some j"
    and b: "bit_array self ! j \<noteq> 0"
    by (auto simp: probe_set_def split: sum.splits option.splits)
  from f have sz: "size_bf self' = size_bf self" and len: "length (bit_array self') = length (bit_array self)"
    by (simp_all add: bf_frame_def)
  have "bit_array self' ! j \<noteq> 0"
    using f b py_index_less [OF x] by (simp add: bf_frame_def)
  then show ?thesis
    using h x hashes_at_size_cong [OF sz, of H s i] py_index_length_cong [OF len, of pos]
    by (simp add: probe_set_def)
qed

lemma add_loop_sets:
  "add_loop H s js self = (Inr (), self') \<Longrightarrow> list_all (probe_set H self' s) js"
proof (induction js arbitrary: self)
  case Nil
  then show ?case by simp
next
  case (Cons i js)
  from Cons.prems obtain pos where h: "hashes_at H self s i = Inr pos"
    by (cases "hashes_at H self s i") simp_all
  from Cons.prems h obtain j where x: "py_index (bit_array self) pos = Some j"
    by (cases "py_index (bit_array self) pos") simp_all
  let ?s1 = "self\<lparr>bit_array := (bit_array self)[j := 1]\<rparr>"
  from Cons.prems h x have run: "add_loop H s js ?s1 = (Inr (), self')" by simp
  have j: "j < length (bit_array self)" using x by (rule py_index_less)
  have h1: "hashes_at H ?s1 s i = Inr pos"
    using h hashes_at_size_cong [of ?s1 self H s i] by simp
  have x1: "py_index (bit_array ?s1) pos = Some j"
    using x py_index_length_cong [of "bit_array ?s1" "bit_array self" pos] by simp
  have "probe_set H ?s1 s i"
    using j by (simp only: probe_set_def h1 x1 sum.case option.case) simp
  with add_loop_frame [OF run] have "probe_set H self' s i" by (rule probe_set_frame)
  with Cons.IH [OF run] show ?case by simp
qed

lemma contains_loop_true:
  "list_all (probe_set H self s) js \<Longrightarrow> contains_loop H s js self = Inr True"
  by (induction js) (auto simp: probe_set_def split: sum.splits option.splits)

lemma holds_item_contains:
  "holds_item H item self \<Longrightarrow> BloomFilter_contains H item self = (Inr True, self)"
  by (auto simp: holds_item_def BloomFilter_contains_def contains_loop_true split: sum.splits)

lemma holds_item_frame:
  assumes "bf_frame self self'" and "holds_item H item self"
  shows "holds_item H item self'"
proof -
  from assms(2) obtain s where n: "BloomFilter_normalize item = Inr s"
    and a: "list_all (probe_set H self s) (py_range (num_hashes self))"
    by (auto simp: holds_item_def split: sum.splits)
  from assms(1) have k: "num_hashes self' = num_hashes self" by (simp add: bf_frame_def)
  from a have "list_all (probe_set H self' s) (py_range (num_hashes self))"
    using probe_set_frame [OF assms(1)] by (auto simp: list_all_iff)
  with n k show ?thesis by (simp add: holds_item_def)
qed

lemma BloomFilter_add_frame:
  assumes "BloomFilter_add H item self = (r, self')"
  shows "bf_frame self self'" and "r = Inr () \<Longrightarrow> holds_item H item self'"
proof -
  show f: "bf_frame self self'"
    using assms add_loop_frame
    by (auto simp: BloomFilter_add_def bf_frame_refl split: sum.splits)
  assume r: "r = Inr ()"
  from assms r obtain s where n: "BloomFilter_normalize item = Inr s"
    and run: "add_loop H s (py_range (num_hashes self)) self = (Inr (), self')"
    by (auto simp: BloomFilter_add_def split: sum.splits)
  from f have "num_hashes self' = num_hashes self" by (simp add: bf_frame_def)
  with add_loop_sets [OF run] n show "holds_item H item self'"
    by (simp add: holds_item_def)
qed

lemma bf_valid_frame: "bf_frame self self' \<Longrightarrow> bf_valid self \<Longrightarrow> bf_valid self'"
  by (simp add: bf_frame_def bf_valid_def)

lemma add_loop_total:
  assumes "bf_valid self" and "\<forall>i \<in> set js. \<bar>i\<bar> < 10 ^ int_max_str_digits"
  shows "fst (add_loop H s js self) = Inr ()"
  using assms
proof (induction js arbitrary: self)
  case Nil
  then show ?case by simp
next
  case (Cons i js)
  from Cons.prems(2) have "py_str_int i = Inr (str_int i)" by (simp add: py_str_int_small)
  then have h: "hashes_at H self s i = Inr (int (H (s @ str_int i)) mod size_bf self)"
    using Cons.prems(1) by (simp add: hashes_at_def hashes_data_def bf_valid_def)
  let ?pos = "int (H (s @ str_int i)) mod size_bf self"
  have x: "py_index (bit_array self) ?pos = Some (nat ?pos)"
    using Cons.prems(1) by (simp add: py_index_def bf_valid_def)
  let ?s1 = "self\<lparr>bit_array := (bit_array self)[nat ?pos := 1]\<rparr>"
  have "bf_valid ?s1" using Cons.prems(1) by (simp add: bf_valid_def)
  from Cons.IH [OF this] Cons.prems(2) have "fst (add_loop H s js ?s1) = Inr ()" by simp
  then show ?case by (simp only: add_loop.simps h x sum.case option.case)
qed

lemma py_range_small:
  assumes "k \<le> 10 ^ int_max_str_digits"
  shows "\<forall>i \<in> set (py_range k). \<bar>i\<bar> < 10 ^ int_max_str_digits"
proof
  fix i assume "i \<in> set (py_range k)"
  then obtain n where "i = int n" "n < nat k" by (auto simp: py_range_def)
  then have "0 \<le> i" "i < k" by simp_all
  with assms show "\<bar>i\<bar> < 10 ^ int_max_str_digits" by simp
qed

lemma BloomFilter_add_total:
  assumes "bf_valid self" and "BloomFilter_normalize item = Inr s"
    and "num_hashes self \<le> 10 ^ int_max_str_digits"
  shows "fst (BloomFilter_add H item self) = Inr ()"
  using add_loop_total [OF assms(1) py_range_small [OF assms(3)]] assms(2)
  by (simp add: BloomFilter_add_def)

lemma BloomFilter_add_raises:
  "BloomFilter_normalize item = Inl e \<Longrightarrow> BloomFilter_add H item self = (Inl e, self)"
  by (simp add: BloomFilter_add_def)

lemma add_each_props:
  assumes "bf_valid self" and "add_each H xs self = (rs, self')"
  shows "length rs = length xs \<and> bf_frame self self' \<and>
         (\<forall>i < length xs.
            (rs ! i = Inr () \<longrightarrow> holds_item H (xs ! i) self') \<and>
            ((\<exists>s. BloomFilter_normalize (xs ! i) = Inr s) \<and>
               num_hashes self \<le> 10 ^ int_max_str_digits \<longrightarrow> rs ! i = Inr ()) \<and>
            (\<forall>e. BloomFilter_normalize (xs ! i) = Inl e \<longrightarrow> rs ! i = Inl e))"
  using assms
proof (induction xs arbitrary: self rs self')
  case Nil
  then show ?case by (simp add: bf_frame_refl)
next
  case (Cons x xs)
  obtain r s1 where a: "BloomFilter_add H x self = (r, s1)" by (cases "BloomFilter_add H x self")
  obtain rs' s2 where b: "add_each H xs s1 = (rs', s2)" by (cases "add_each H xs s1")
  from Cons.prems(2) a b have rs: "rs = r # rs'" and s': "self' = s2" by simp_all
  note f1 = BloomFilter_add_frame(1) [OF a]
  have v1: "bf_valid s1" using f1 Cons.prems(1) by (rule bf_valid_frame)
  from Cons.IH [OF v1 b]
  have len: "length rs' = length xs" and f2: "bf_frame s1 s2"
    and ih: "\<forall>i < length xs.
            (rs' ! i = Inr () \<longrightarrow> holds_item H (xs ! i) s2) \<and>
            ((\<exists>s. BloomFilter_normalize (xs ! i) = Inr s) \<and>
               num_hashes s1 \<le> 10 ^ int_max_str_digits \<longrightarrow> rs' ! i = Inr ()) \<and>
            (\<forall>e. BloomFilter_normalize (xs ! i) = Inl e \<longrightarrow> rs' ! i = Inl e)"
    by simp_all
  have k1: "num_hashes s1 = num_hashes self" using f1 by (simp add: bf_frame_def)
  have head: "(r = Inr () \<longrightarrow> holds_item H x s2) \<and>
      ((\<exists>s. BloomFilter_normalize x = Inr s) \<and> num_hashes self \<le> 10 ^ int_max_str_digits \<longrightarrow> r = Inr ()) \<and>
      (\<forall>e. BloomFilter_normalize x = Inl e \<longrightarrow> r = Inl e)"
  proof (intro conjI impI allI)
    assume "r = Inr ()"
    from BloomFilter_add_frame(2) [OF a this] f2 show "holds_item H x s2"
      by (rule holds_item_frame [rotated])
  next
    assume "(\<exists>s. BloomFilter_normalize x = Inr s) \<and> num_hashes self \<le> 10 ^ int_max_str_digits"
    then obtain s where "BloomFilter_normalize x = Inr s" "num_hashes self \<le> 10 ^ int_max_str_digits"
      by blast
    from BloomFilter_add_total [OF Cons.prems(1) this, of H] a show "r = Inr ()" by simp
  next
    fix e assume "BloomFilter_normalize x = Inl e"
    from BloomFilter_add_raises [OF this, of H self] a show "r = Inl e" by simp
  qed
  have all: "\<forall>i < length (x # xs).
            (rs ! i = Inr () \<longrightarrow> holds_item H ((x # xs) ! i) self') \<and>
            ((\<exists>s. BloomFilter_normalize ((x # xs) ! i) = Inr s) \<and>
               num_hashes self \<le> 10 ^ int_max_str_digits \<longrightarrow> rs ! i = Inr ()) \<and>
            (\<forall>e. BloomFilter_normalize ((x # xs) ! i) = Inl e \<longrightarrow> rs ! i = Inl e)"
  proof (intro allI impI)
    fix i assume "i < length (x # xs)"
    then show "(rs ! i = Inr () \<longrightarrow> holds_item H ((x # xs) ! i) self') \<and>
            ((\<exists>s. BloomFilter_normalize ((x # xs) ! i) = Inr s) \<and>
               num_hashes self \<le> 10 ^ int_max_str_digits \<longrightarrow> rs ! i = Inr ()) \<and>
            (\<forall>e. BloomFilter_normalize ((x # xs) ! i) = Inl e \<longrightarrow> rs ! i = Inl e)"
      using head ih k1 by (cases i) (simp_all add: rs s')
  qed
  from len f1 f2 all show ?case by (simp add: rs s' bf_frame_trans [OF f1 f2])
qed

text \<open>
  C1. No false negatives: on a filter constructed with a positive size and a positive
  number of hashes, take any finite sequence of \<open>add\<close> calls. Every call that returns
  has its item reported present by a membership test made after the whole sequence,
  whatever the other calls did. A call returns whenever \<open>str\<close> of its item returns
  and the salts stay below the limit of \<open>str\<close>, and it raises what \<open>str\<close> of its
  item raises.
\<close>

theorem no_false_negatives:
  assumes "BloomFilter_init sz k = Inr bloom" and "add_each H xs bloom = (rs, bloom')"
    and "i < length xs"
  shows "length rs = length xs \<and>
         (rs ! i = Inr () \<longrightarrow> BloomFilter_contains H (xs ! i) bloom' = (Inr True, bloom')) \<and>
         ((\<exists>s. BloomFilter_normalize (xs ! i) = Inr s) \<and> k \<le> 10 ^ int_max_str_digits \<longrightarrow>
            rs ! i = Inr ()) \<and>
         (\<forall>e. BloomFilter_normalize (xs ! i) = Inl e \<longrightarrow> rs ! i = Inl e)"
proof -
  from bf_valid_init [OF assms(1)] have v: "bf_valid bloom" and k: "num_hashes bloom = k" by simp_all
  from add_each_props [OF v assms(2)] assms(3) k holds_item_contains [of H "xs ! i" bloom']
  show ?thesis by auto
qed

lemmas bloom_eval = BloomFilter_normalize_def BloomFilter_contains_def BloomFilter_add_def
  py_range_def hashes_at_def hashes_data_def py_index_def upt_rec str_int_def str_nat.simps
  numeral_eq_Suc py_str_int_digit py_str_int_limit

theorem no_false_negatives_witness:
  "BloomFilter_init 7 3 = Inr \<lparr>size_bf = 7, num_hashes = 3, bit_array = replicate 7 0\<rparr> \<and>
   add_each length [PyStr ''password123'', PyInt (10 ^ int_max_str_digits), PyNone]
       \<lparr>size_bf = 7, num_hashes = 3, bit_array = replicate 7 0\<rparr> =
     ([Inr (), Inl (ValueError ''Exceeds the limit (4300 digits) for integer string conversion''), Inr ()],
      \<lparr>size_bf = 7, num_hashes = 3, bit_array = [0, 1, 0, 0, 0, 1, 0]\<rparr>) \<and>
   BloomFilter_normalize PyNone = Inr [] \<and> (3::int) \<le> 10 ^ int_max_str_digits \<and>
   BloomFilter_contains length PyNone \<lparr>size_bf = 7, num_hashes = 3, bit_array = [0, 1, 0, 0, 0, 1, 0]\<rparr> =
     (Inr True, \<lparr>size_bf = 7, num_hashes = 3, bit_array = [0, 1, 0, 0, 0, 1, 0]\<rparr>)"
proof -
  let ?b = "\<lparr>size_bf = 7, num_hashes = 3, bit_array = replicate 7 0\<rparr>"
  let ?xs = "[PyStr ''password123'', PyInt (10 ^ int_max_str_digits), PyNone]"
  let ?rs = "[Inr (), Inl (ValueError ''Exceeds the limit (4300 digits) for integer string conversion''), Inr ()]"
  let ?b' = "\<lparr>size_bf = 7, num_hashes = 3, bit_array = [0, 1, 0, 0, 0, 1, 0]\<rparr>"
  have h1: "BloomFilter_init 7 3 = Inr ?b" by (simp add: BloomFilter_init_def)
  have h2: "add_each length ?xs ?b = (?rs, ?b')" by (simp add: bloom_eval)
  have h3: "2 < length ?xs" by simp
  have n: "BloomFilter_normalize PyNone = Inr []" by (simp add: BloomFilter_normalize_def)
  from no_false_negatives [OF h1 h2 h3] h1 h2 n small_le_limit show ?thesis by simp
qed

section \<open>Adding twice\<close>

lemma add_loop_twice:
  "add_loop H s js (snd (add_loop H s js self)) = add_loop H s js self"
proof (induction js arbitrary: self)
  case Nil
  then show ?case by simp
next
  case (Cons i js)
  show ?case
  proof (cases "hashes_at H self s i")
    case (Inl e)
    then show ?thesis by simp
  next
    case (Inr pos)
    show ?thesis
    proof (cases "py_index (bit_array self) pos")
      case None
      with Inr show ?thesis by simp
    next
      case (Some j)
      let ?s1 = "self\<lparr>bit_array := (bit_array self)[j := 1]\<rparr>"
      obtain r s2 where run: "add_loop H s js ?s1 = (r, s2)"
        by (cases "add_loop H s js ?s1")
      have first: "add_loop H s (i # js) self = (r, s2)"
        using Inr Some run by simp
      have j: "j < length (bit_array self)" using Some by (rule py_index_less)
      from add_loop_frame [OF run] j
      have sz: "size_bf s2 = size_bf self" and len: "length (bit_array s2) = length (bit_array self)"
        and one: "bit_array s2 ! j = 1" by (simp_all add: bf_frame_def)
      have h2: "hashes_at H s2 s i = Inr pos"
        using Inr hashes_at_size_cong [OF sz] by simp
      have i2: "py_index (bit_array s2) pos = Some j"
        using Some py_index_length_cong [OF len] by simp
      have same: "s2\<lparr>bit_array := (bit_array s2)[j := 1]\<rparr> = s2"
        using one by (simp add: list_update_same_conv [THEN iffD2] j len)
      have "add_loop H s (i # js) s2 = add_loop H s js s2"
        using h2 i2 same by simp
      also have "\<dots> = add_loop H s js (snd (add_loop H s js ?s1))"
        using run by simp
      also have "\<dots> = add_loop H s js ?s1" by (rule Cons.IH)
      finally show ?thesis using first run by simp
    qed
  qed
qed

lemma BloomFilter_add_twice:
  "BloomFilter_add H item (snd (BloomFilter_add H item self)) = BloomFilter_add H item self"
proof (cases "BloomFilter_normalize item")
  case (Inl e)
  then show ?thesis by (simp add: BloomFilter_add_def)
next
  case (Inr s)
  obtain r s2 where run: "add_loop H s (py_range (num_hashes self)) self = (r, s2)"
    by (cases "add_loop H s (py_range (num_hashes self)) self")
  from add_loop_frame [OF run] have "num_hashes s2 = num_hashes self" by (simp add: bf_frame_def)
  then show ?thesis
    using run add_loop_twice [of H s "py_range (num_hashes self)" self] Inr
    by (simp add: BloomFilter_add_def)
qed

lemma HyperLogLog_add_twice:
  "HyperLogLog_add H v (snd (HyperLogLog_add H v self)) = HyperLogLog_add H v self"
  by (auto simp: HyperLogLog_add_def Let_def HyperLogLog_rho_def py_index_def
      split: sum.splits option.splits if_splits)

text \<open>
  C8. Idempotent add: in any state of either sketch, a second \<open>add\<close> of the same item
  right after the first gives the same result and leaves the same object (all fields,
  so the same \<open>bit_array\<close>, resp. \<open>registers\<close>) as the first alone.
\<close>

theorem idempotent_add:
  "BloomFilter_add H item (snd (BloomFilter_add H item bloom)) = BloomFilter_add H item bloom \<and>
   HyperLogLog_add H' v (snd (HyperLogLog_add H' v hll)) = HyperLogLog_add H' v hll"
  using BloomFilter_add_twice HyperLogLog_add_twice by blast

section \<open>Queries\<close>

text \<open>
  C10. Queries never mutate: \<open>__contains__\<close> and \<open>count\<close> leave the object, and so
  \<open>size\<close>, \<open>num_hashes\<close>, \<open>bit_array\<close>, resp. \<open>p\<close>, \<open>m\<close>, \<open>registers\<close>, as it was,
  whatever they return or raise.
\<close>

theorem queries_do_not_mutate:
  "snd (BloomFilter_contains H item bloom) = bloom \<and> snd (HyperLogLog_count hll) = hll"
  by (simp add: BloomFilter_contains_def HyperLogLog_count_def split: sum.splits)

section \<open>The estimator's add on valid states\<close>

lemma and_pow2_minus_1: "a AND (push_bit n 1 - 1) = a mod 2 ^ n" for a :: int
proof -
  have "(push_bit n 1 - 1 :: int) = mask n" by (simp add: mask_eq_exp_minus_1 push_bit_eq_mult)
  then show ?thesis by (simp add: take_bit_eq_mod flip: take_bit_eq_mask)
qed

lemma leading_zero_bits_0: "leading_zero_bits n 0 = n"
  by (simp add: leading_zero_bits_def takeWhile_eq_all_conv [THEN iffD2])

lemma leading_zero_bits_bitlen:
  assumes "0 < w" and "w < 2 ^ n"
  shows "int (leading_zero_bits n w) = int n - bitlen w"
proof -
  define b where "b = nat (bitlen w)"
  from bitlen_bounds [OF assms(1)]
  have lo: "2 ^ nat (bitlen w - 1) \<le> w" and hi: "w < 2 ^ b" by (simp_all add: b_def)
  have bpos: "0 < bitlen w" using assms(1) bitlen_nonneg [of w] bitlen_eq_zero_iff [of w] by (simp add: order_less_le)
  then have b1: "1 \<le> b" and bb: "int b = bitlen w" by (simp_all add: b_def)
  have lo': "2 ^ (b - 1) \<le> w" using lo b1 by (simp add: b_def nat_diff_distrib)
  have "(2::int) ^ (b - 1) < 2 ^ n" using lo' assms(2) by linarith
  then have "b - 1 < n" by simp
  then have bn: "b \<le> n" using b1 by linarith
  have clear: "\<not> bit w k" if "b \<le> k" for k
  proof -
    have "w < 2 ^ k" using hi that by (smt (verit) power_increasing)
    then have "w div 2 ^ k = 0" using assms(1) by simp
    then show ?thesis by (simp add: bit_iff_odd)
  qed
  have set: "bit w (b - 1)"
  proof -
    define c :: int where "c = 2 ^ (b - 1)"
    have nz: "c \<noteq> 0" by (simp add: c_def)
    have "2 ^ b = 2 * c" using b1 unfolding c_def by (cases b) simp_all
    with hi lo' have "0 \<le> w - c" "w - c < c" by (simp_all add: c_def)
    then have z: "(w - c) div c = 0" by (rule div_pos_pos_trivial)
    have "w div c = (w - c + c) div c" by simp
    also have "\<dots> = (w - c) div c + 1" using nz by (rule div_add_self2)
    finally have "w div c = 1" using z by simp
    then show ?thesis by (simp add: bit_iff_odd c_def)
  qed
  have split: "rev [0..<n] = rev [b..<n] @ (b - 1) # rev [0..<b - 1]"
  proof -
    have "[0..<b + (n - b)] = [0..<b] @ [b..<b + (n - b)]" by (rule upt_add_eq_append) simp
    then have 1: "[0..<n] = [0..<b] @ [b..<n]" using bn by simp
    have 2: "[0..<b] = [0..<b - 1] @ [b - 1]" using b1 by (cases b) simp_all
    show ?thesis by (simp add: 1 2)
  qed
  have "takeWhile (\<lambda>k. \<not> bit w k) (rev [b..<n] @ (b - 1) # rev [0..<b - 1]) =
        rev [b..<n] @ takeWhile (\<lambda>k. \<not> bit w k) ((b - 1) # rev [0..<b - 1])"
    by (rule takeWhile_append2) (simp add: clear)
  also have "\<dots> = rev [b..<n]" using set by simp
  finally have "takeWhile (\<lambda>k. \<not> bit w k) (rev [0..<n]) = rev [b..<n]"
    by (simp only: split)
  then show ?thesis using bn bb by (simp add: leading_zero_bits_def)
qed

lemma HyperLogLog_hash_mod:
  "hash_data v = Inr d \<Longrightarrow> HyperLogLog_hash H v = Inr (int (H d) mod 2 ^ 64)"
  by (simp only: HyperLogLog_hash_def MAX_BITS_def and_pow2_minus_1 sum.case) simp

lemma HyperLogLog_add_raises:
  "hash_data v = Inl e \<Longrightarrow> HyperLogLog_hash H v = Inl e \<and> HyperLogLog_add H v self = (Inl e, self)"
  by (simp add: HyperLogLog_hash_def HyperLogLog_add_def)

lemma hash_split:
  assumes "0 \<le> x" and "x < 2 ^ (n + k)"
  shows "0 \<le> x div 2 ^ n" and "x div 2 ^ n < (2::int) ^ k"
    and "0 \<le> x mod 2 ^ n" and "x mod 2 ^ n < (2::int) ^ n"
proof -
  show "0 \<le> x div 2 ^ n" using assms(1) by (simp add: pos_imp_zdiv_nonneg_iff)
  show "x div 2 ^ n < (2::int) ^ k"
  proof (rule ccontr)
    assume "\<not> x div 2 ^ n < 2 ^ k"
    then have "2 ^ k * 2 ^ n \<le> (x div 2 ^ n) * (2::int) ^ n"
      by (simp add: mult_right_mono)
    also have "\<dots> \<le> x"
    proof -
      have "x div 2 ^ n * 2 ^ n + x mod 2 ^ n = x" by (rule div_mult_mod_eq)
      moreover have "0 \<le> x mod 2 ^ n" by simp
      ultimately show ?thesis by linarith
    qed
    finally show False using assms(2) by (simp add: power_add mult.commute)
  qed
  show "0 \<le> x mod 2 ^ n" by simp
  show "x mod 2 ^ n < (2::int) ^ n" by simp
qed

lemma HyperLogLog_rho_spec:
  assumes "0 \<le> w" and "w < 2 ^ nat (MAX_BITS - p_hll self)" and "p_hll self \<le> MAX_BITS"
  shows "HyperLogLog_rho self w = 1 + int (leading_zero_bits (nat (MAX_BITS - p_hll self)) w)"
proof (cases "w = 0")
  case True
  then show ?thesis using assms(3) by (simp add: HyperLogLog_rho_def leading_zero_bits_0)
next
  case False
  with assms(1) have "0 < w" by simp
  from leading_zero_bits_bitlen [OF this assms(2)] assms(1,3) False
  show ?thesis by (simp add: HyperLogLog_rho_def Let_def)
qed

lemma HyperLogLog_add_valid:
  fixes H :: hashfun and v :: pyval
  assumes "hll_valid self" and "hash_data v = Inr d"
  defines "n \<equiv> nat (MAX_BITS - p_hll self)"
  defines "x \<equiv> int (H d) mod 2 ^ 64"
  shows "HyperLogLog_add H v self =
           (Inr (), self\<lparr>registers := (registers self)
              [nat (x div 2 ^ n) := max (registers self ! nat (x div 2 ^ n)) (HyperLogLog_rho self (x mod 2 ^ n))]\<rparr>)"
    and "nat (x div 2 ^ n) < length (registers self)"
proof -
  from assms(1) have p: "4 \<le> p_hll self" "p_hll self \<le> 16"
    and len: "length (registers self) = 2 ^ nat (p_hll self)"
    by (simp_all add: hll_valid_def)
  have n: "MAX_BITS - p_hll self = int n" "\<not> MAX_BITS - p_hll self < 0"
    using p by (simp_all add: n_def MAX_BITS_def)
  have x0: "0 \<le> x" and x64: "x < 2 ^ (n + nat (p_hll self))"
  proof -
    show "0 \<le> x" by (simp add: x_def)
    have "n + nat (p_hll self) = 64" using p by (simp add: n_def MAX_BITS_def)
    then show "x < 2 ^ (n + nat (p_hll self))" by (simp add: x_def)
  qed
  note sp = hash_split [OF x0 x64]
  have idx: "py_index (registers self) (x div 2 ^ n) = Some (nat (x div 2 ^ n))"
    using sp(1,2) len by (simp add: py_index_def)
  show "nat (x div 2 ^ n) < length (registers self)"
    using sp(1,2) len by (simp add: nat_less_iff)
  have hx: "HyperLogLog_hash H v = Inr x"
    using HyperLogLog_hash_mod [OF assms(2), of H] by (simp only: x_def)
  have r: "py_rshift x (MAX_BITS - p_hll self) = Inr (x div 2 ^ n)"
    by (simp add: py_rshift_def n drop_bit_eq_div)
  have l: "py_lshift 1 (MAX_BITS - p_hll self) = Inr (push_bit n 1)"
    by (simp add: py_lshift_def n)
  have w: "x AND (push_bit n 1 - 1) = x mod 2 ^ n" by (rule and_pow2_minus_1)
  let ?j = "nat (x div 2 ^ n)"
  let ?rho = "HyperLogLog_rho self (x mod 2 ^ n)"
  have unfold: "HyperLogLog_add H v self =
      (if ?rho > registers self ! ?j
       then (Inr (), self\<lparr>registers := (registers self)[?j := ?rho]\<rparr>)
       else (Inr (), self))"
    by (simp only: HyperLogLog_add_def hx Let_def r l w idx sum.case option.case)
  show "HyperLogLog_add H v self =
           (Inr (), self\<lparr>registers := (registers self)
              [?j := max (registers self ! ?j) ?rho]\<rparr>)"
    unfolding unfold by (simp add: max_def)
qed

lemma hll_valid_init: "HyperLogLog_init p = Inr h \<Longrightarrow> hll_valid h \<and> p_hll h = p"
  by (auto simp: HyperLogLog_init_def hll_valid_def Let_def push_bit_eq_mult MAX_BITS_def
      split: if_splits)

lemma leading_zero_bits_le: "leading_zero_bits n w \<le> n"
proof -
  have "length (takeWhile (\<lambda>k. \<not> bit w k) (rev [0..<n])) \<le> length (rev [0..<n])"
    by (rule length_takeWhile_le)
  then show ?thesis by (simp add: leading_zero_bits_def)
qed

lemma bitlen_eqI: "2 ^ k \<le> x \<Longrightarrow> x < 2 ^ Suc k \<Longrightarrow> bitlen x = int (Suc k)"
proof (rule antisym)
  assume "x < 2 ^ Suc k"
  then show "bitlen x \<le> int (Suc k)" by (simp add: bitlen_le_iff_power del: of_nat_Suc)
next
  assume "2 ^ k \<le> x"
  then show "int (Suc k) \<le> bitlen x" by (simp add: bitlen_ge_iff_power del: of_nat_Suc)
qed

lemma list_update_Cons_numeral: "(x # xs)[numeral n := y] = x # xs[pred_numeral n := y]"
  by (simp add: numeral_eq_Suc)

lemma HyperLogLog_add_eval:
  fixes H :: hashfun and v :: pyval
  assumes "hll_valid self"
    and "hash_data v = Inr d"
    and "int (H d) mod 2 ^ 64 = x"
    and "x div 2 ^ nat (MAX_BITS - p_hll self) = int j"
    and "2 ^ k \<le> x mod 2 ^ nat (MAX_BITS - p_hll self)"
    and "x mod 2 ^ nat (MAX_BITS - p_hll self) < 2 ^ Suc k"
  shows "HyperLogLog_add H v self =
           (Inr (), self\<lparr>registers := (registers self)
              [j := max (registers self ! j) (MAX_BITS - p_hll self - int k)]\<rparr>)"
proof -
  let ?w = "x mod 2 ^ nat (MAX_BITS - p_hll self)"
  have b: "bitlen ?w = int (Suc k)" using assms(5,6) by (rule bitlen_eqI)
  have "(0::int) < 2 ^ k" by simp
  with assms(5) have "0 < ?w" by linarith
  then have rho: "HyperLogLog_rho self ?w = MAX_BITS - p_hll self - int k"
    by (simp add: HyperLogLog_rho_def Let_def b)
  show ?thesis
    by (rule HyperLogLog_add_valid(1) [OF assms(1,2), of H, unfolded assms(3) assms(4) nat_int rho])
qed

lemmas sample_defs = hll_valid_def MAX_BITS_def sha1_sample_def sha1_digests_def hash_data_def
  list_update_Cons_numeral

text \<open>
  C5. \<open>add\<close> on the estimator, for an item whose \<open>str\<close> returns: the 64-bit hash
  \<open>x\<close> of the item is split into its top \<open>p\<close> bits, the register index, and its low
  \<open>64 - p\<close> bits \<open>w\<close>; \<open>rho\<close> is 1 plus the number of leading zero bits of \<open>w\<close> as a
  field of \<open>64 - p\<close> bits, which is \<open>(64 - p) + 1\<close> for \<open>w = 0\<close>; the call stores the
  maximum of the register and \<open>rho\<close> in that register and changes nothing else. For an
  item whose \<open>str\<close> raises, the call raises the same error and changes nothing.
\<close>

theorem estimator_add:
  fixes H :: hashfun and v :: pyval
  assumes "hll_valid self"
  shows "case hash_data v of
           Inl e \<Rightarrow> HyperLogLog_hash H v = Inl e \<and> HyperLogLog_add H v self = (Inl e, self)
         | Inr d \<Rightarrow>
             (let x = int (H d) mod 2 ^ 64;
                  bits = nat (64 - p_hll self);
                  register_index = x div 2 ^ bits;
                  w = x mod 2 ^ bits;
                  rho = 1 + int (leading_zero_bits bits w)
              in HyperLogLog_hash H v = Inr x \<and>
                 x = register_index * 2 ^ bits + w \<and>
                 0 \<le> register_index \<and> register_index < 2 ^ nat (p_hll self) \<and>
                 0 \<le> w \<and> w < 2 ^ bits \<and>
                 HyperLogLog_rho self w = rho \<and>
                 HyperLogLog_rho self 0 = (64 - p_hll self) + 1 \<and>
                 HyperLogLog_add H v self =
                   (Inr (), self\<lparr>registers := (registers self)
                      [nat register_index := max (registers self ! nat register_index) rho]\<rparr>))"
proof (cases "hash_data v")
  case (Inl e)
  with HyperLogLog_add_raises [OF Inl, of H self] show ?thesis by simp
next
  case (Inr d)
  define x where "x = int (H d) mod 2 ^ 64"
  define bits where "bits = nat (64 - p_hll self)"
  from assms have p: "4 \<le> p_hll self" "p_hll self \<le> 16" by (simp_all add: hll_valid_def)
  have b: "nat (MAX_BITS - p_hll self) = bits" by (simp add: bits_def MAX_BITS_def)
  have x0: "0 \<le> x" by (simp add: x_def)
  have "bits + nat (p_hll self) = 64" using p by (simp add: bits_def)
  then have x64: "x < 2 ^ (bits + nat (p_hll self))" by (simp add: x_def)
  note sp = hash_split [OF x0 x64]
  have rho: "HyperLogLog_rho self (x mod 2 ^ bits) = 1 + int (leading_zero_bits bits (x mod 2 ^ bits))"
    using HyperLogLog_rho_spec [of "x mod 2 ^ bits" self] sp(3,4) p b by (simp add: MAX_BITS_def)
  have add: "HyperLogLog_add H v self =
      (Inr (), self\<lparr>registers := (registers self)
         [nat (x div 2 ^ bits) := max (registers self ! nat (x div 2 ^ bits))
            (1 + int (leading_zero_bits bits (x mod 2 ^ bits)))]\<rparr>)"
    unfolding rho [symmetric]
    using HyperLogLog_add_valid(1) [OF assms Inr, of H] by (simp only: b x_def)
  have zero: "HyperLogLog_rho self 0 = (64 - p_hll self) + 1"
    by (simp add: HyperLogLog_rho_def MAX_BITS_def)
  have hx: "HyperLogLog_hash H v = Inr x"
    using HyperLogLog_hash_mod [OF Inr, of H] by (simp only: x_def)
  have dm: "x = x div 2 ^ bits * 2 ^ bits + x mod 2 ^ bits"
    by (rule div_mult_mod_eq [symmetric])
  have "let x = int (H d) mod 2 ^ 64;
                  bits = nat (64 - p_hll self);
                  register_index = x div 2 ^ bits;
                  w = x mod 2 ^ bits;
                  rho = 1 + int (leading_zero_bits bits w)
              in HyperLogLog_hash H v = Inr x \<and>
                 x = register_index * 2 ^ bits + w \<and>
                 0 \<le> register_index \<and> register_index < 2 ^ nat (p_hll self) \<and>
                 0 \<le> w \<and> w < 2 ^ bits \<and>
                 HyperLogLog_rho self w = rho \<and>
                 HyperLogLog_rho self 0 = (64 - p_hll self) + 1 \<and>
                 HyperLogLog_add H v self =
                   (Inr (), self\<lparr>registers := (registers self)
                      [nat register_index := max (registers self ! nat register_index) rho]\<rparr>)"
    unfolding Let_def x_def [symmetric] bits_def [symmetric]
    using sp add zero rho hx dm by blast
  then show ?thesis by (simp only: Inr sum.case)
qed

theorem estimator_add_witness:
  "hll_valid \<lparr>p_hll = 4, m_hll = 16, registers = replicate 16 0\<rparr> \<and>
   hash_data (PyStr ''715906921'') = Inr ''715906921'' \<and>
   HyperLogLog_hash sha1_sample (PyStr ''715906921'') = Inr 4611686020473995492 \<and>
   HyperLogLog_rho \<lparr>p_hll = 4, m_hll = 16, registers = replicate 16 0\<rparr> 2046607588 =
     1 + int (leading_zero_bits 60 2046607588) \<and>
   HyperLogLog_add sha1_sample (PyStr ''715906921'')
       \<lparr>p_hll = 4, m_hll = 16, registers = replicate 16 0\<rparr> =
     (Inr (), \<lparr>p_hll = 4, m_hll = 16,
                registers = (replicate 16 0)[4 := 1 + int (leading_zero_bits 60 2046607588)]\<rparr>) \<and>
   hash_data (PyInt (10 ^ int_max_str_digits)) =
     Inl (ValueError ''Exceeds the limit (4300 digits) for integer string conversion'') \<and>
   HyperLogLog_add sha1_sample (PyInt (10 ^ int_max_str_digits))
       \<lparr>p_hll = 4, m_hll = 16, registers = replicate 16 0\<rparr> =
     (Inl (ValueError ''Exceeds the limit (4300 digits) for integer string conversion''),
      \<lparr>p_hll = 4, m_hll = 16, registers = replicate 16 0\<rparr>)"
proof -
  have v: "hll_valid \<lparr>p_hll = 4, m_hll = 16, registers = replicate 16 0\<rparr>"
    by (simp add: hll_valid_def MAX_BITS_def)
  have d: "hash_data (PyStr ''715906921'') = Inr ''715906921''" by (simp add: hash_data_def)
  have e: "hash_data (PyInt (10 ^ int_max_str_digits)) =
     Inl (ValueError ''Exceeds the limit (4300 digits) for integer string conversion'')"
    by (simp add: hash_data_def py_str_int_limit)
  have h: "sha1_sample ''715906921'' = 854380022950218440191449120695160750567973503204"
    by (simp add: sha1_sample_def sha1_digests_def)
  have m: "(854380022950218440191449120695160750567973503204::int) mod 2 ^ 64 = 4611686020473995492"
    "(4611686020473995492::int) div 2 ^ 60 = 4" "(4611686020473995492::int) mod 2 ^ 60 = 2046607588"
    by simp_all
  from estimator_add [OF v, of sha1_sample "PyStr ''715906921''"]
    estimator_add [OF v, of sha1_sample "PyInt (10 ^ int_max_str_digits)"] v d e
  show ?thesis by (simp add: Let_def h m)
qed

lemma HyperLogLog_add_step:
  fixes H :: hashfun and v :: pyval
  assumes "hll_valid self" and "HyperLogLog_add H v self = (r, self')"
  shows "r = add_outcome v \<and> hll_valid self' \<and> p_hll self' = p_hll self \<and>
         length (registers self') = length (registers self) \<and>
         (\<forall>j < length (registers self). registers self ! j \<le> registers self' ! j)"
proof (cases "hash_data v")
  case (Inl e)
  from HyperLogLog_add_raises [OF Inl, of H self] assms show ?thesis
    by (simp add: add_outcome_def Inl)
next
  case (Inr d)
  define n where "n = nat (MAX_BITS - p_hll self)"
  define x where "x = int (H d) mod 2 ^ 64"
  define j where "j = nat (x div 2 ^ n)"
  define rho where "rho = HyperLogLog_rho self (x mod 2 ^ n)"
  from assms(1) have p: "4 \<le> p_hll self" "p_hll self \<le> 16"
    and regs: "\<forall>r \<in> set (registers self). 0 \<le> r \<and> r \<le> (MAX_BITS - p_hll self) + 1"
    by (simp_all add: hll_valid_def)
  from HyperLogLog_add_valid [OF assms(1) Inr, of H]
  have run: "HyperLogLog_add H v self =
      (Inr (), self\<lparr>registers := (registers self)[j := max (registers self ! j) rho]\<rparr>)"
    and jlt: "j < length (registers self)"
    by (simp_all only: n_def x_def j_def rho_def)
  from run assms(2) have r: "r = Inr ()"
    and s': "self' = self\<lparr>registers := (registers self)[j := max (registers self ! j) rho]\<rparr>"
    by simp_all
  have "0 \<le> x mod 2 ^ n" "x mod 2 ^ n < 2 ^ n" by simp_all
  from HyperLogLog_rho_spec [OF this [unfolded n_def]] p
  have "rho = 1 + int (leading_zero_bits n (x mod 2 ^ n))"
    by (simp add: rho_def n_def MAX_BITS_def)
  then have rho_b: "0 \<le> rho" "rho \<le> (MAX_BITS - p_hll self) + 1"
    using leading_zero_bits_le [of n "x mod 2 ^ n"] p by (simp_all add: n_def MAX_BITS_def)
  have old: "0 \<le> registers self ! j" "registers self ! j \<le> (MAX_BITS - p_hll self) + 1"
    using regs jlt by (simp_all add: nth_mem)
  have new: "\<forall>r \<in> set (registers self'). 0 \<le> r \<and> r \<le> (MAX_BITS - p_hll self) + 1"
  proof
    fix r assume "r \<in> set (registers self')"
    then have "r \<in> insert (max (registers self ! j) rho) (set (registers self))"
      using set_update_subset_insert [of "registers self" j] by (auto simp: s')
    then show "0 \<le> r \<and> r \<le> (MAX_BITS - p_hll self) + 1"
      using regs rho_b old by (auto simp: max_def)
  qed
  have v: "hll_valid self'"
    using assms(1) new by (simp add: hll_valid_def s')
  have mono: "\<forall>i < length (registers self). registers self ! i \<le> registers self' ! i"
    using jlt by (simp add: s' nth_list_update)
  from r v mono show ?thesis by (simp add: s' add_outcome_def Inr)
qed

lemma hll_add_each_props:
  assumes "hll_valid self" and "hll_add_each H xs self = (rs, self')"
  shows "rs = map add_outcome xs \<and> hll_valid self' \<and> p_hll self' = p_hll self \<and>
         length (registers self') = length (registers self) \<and>
         (\<forall>j < length (registers self). registers self ! j \<le> registers self' ! j)"
  using assms
proof (induction xs arbitrary: self rs self')
  case Nil
  then show ?case by simp
next
  case (Cons x xs)
  obtain r s1 where a: "HyperLogLog_add H x self = (r, s1)" by (cases "HyperLogLog_add H x self")
  obtain rs' s2 where b: "hll_add_each H xs s1 = (rs', s2)" by (cases "hll_add_each H xs s1")
  from Cons.prems(2) a b have rs: "rs = r # rs'" and s': "self' = s2" by simp_all
  from HyperLogLog_add_step [OF Cons.prems(1) a]
  have r: "r = add_outcome x" and v1: "hll_valid s1" and p1: "p_hll s1 = p_hll self"
    and l1: "length (registers s1) = length (registers self)"
    and m1: "\<forall>j < length (registers self). registers self ! j \<le> registers s1 ! j" by simp_all
  from Cons.IH [OF v1 b]
  have ih: "rs' = map add_outcome xs" "hll_valid s2" "p_hll s2 = p_hll s1"
      "length (registers s2) = length (registers s1)"
      "\<forall>j < length (registers s1). registers s1 ! j \<le> registers s2 ! j" by simp_all
  have "\<forall>j < length (registers self). registers self ! j \<le> registers s2 ! j"
    using m1 ih(5) l1 by (metis order_trans)
  then show ?case using ih(1-4) r p1 l1 by (simp add: rs s')
qed

text \<open>
  C7. Register invariant: on an estimator constructed with a precision \<open>p\<close> in 4..16,
  take any sequence of \<open>add\<close> calls followed by any further sequence, each call made
  whether the one before returned or raised. A call raises exactly what \<open>str\<close> of its
  item raises and returns otherwise; no register is smaller after the longer sequence
  than after the first, and every register stays between 0 and \<open>(64 - p) + 1\<close>.
\<close>

theorem register_invariant:
  assumes "HyperLogLog_init p = Inr hll"
    and "hll_add_each H xs hll = (rs1, hll1)" and "hll_add_each H ys hll1 = (rs2, hll2)"
  shows "rs1 = map add_outcome xs \<and> rs2 = map add_outcome ys \<and>
         length (registers hll1) = 2 ^ nat p \<and> length (registers hll2) = 2 ^ nat p \<and>
         (\<forall>j < 2 ^ nat p. 0 \<le> registers hll1 ! j \<and> registers hll1 ! j \<le> registers hll2 ! j \<and>
                          registers hll2 ! j \<le> (64 - p) + 1)"
proof -
  from hll_valid_init [OF assms(1)] have v: "hll_valid hll" and p: "p_hll hll = p" by simp_all
  have len: "length (registers hll) = 2 ^ nat p"
    using v p by (simp add: hll_valid_def)
  from hll_add_each_props [OF v assms(2)]
  have h1: "rs1 = map add_outcome xs" "hll_valid hll1" "p_hll hll1 = p_hll hll"
      "length (registers hll1) = length (registers hll)" by simp_all
  from hll_add_each_props [OF h1(2) assms(3)]
  have h2: "rs2 = map add_outcome ys" "hll_valid hll2" "p_hll hll2 = p_hll hll1"
      "length (registers hll2) = length (registers hll1)"
      "\<forall>j < length (registers hll1). registers hll1 ! j \<le> registers hll2 ! j" by simp_all
  have bound: "0 \<le> registers hll1 ! j \<and> registers hll2 ! j \<le> (64 - p) + 1" if "j < 2 ^ nat p" for j
  proof -
    have "registers hll2 ! j \<in> set (registers hll2)" "registers hll1 ! j \<in> set (registers hll1)"
      using that h2(4) h1(4) len by (simp_all add: nth_mem)
    then show ?thesis using h2(2,3) h1(2,3) p by (simp add: hll_valid_def MAX_BITS_def)
  qed
  show ?thesis
    using h1(1,4) h2(1,4,5) len bound by simp
qed

theorem register_invariant_witness:
  "HyperLogLog_init 4 = Inr \<lparr>p_hll = 4, m_hll = 16, registers = replicate 16 0\<rparr> \<and>
   hll_add_each sha1_sample [PyStr ''715906921'', PyInt (10 ^ int_max_str_digits)]
       \<lparr>p_hll = 4, m_hll = 16, registers = replicate 16 0\<rparr> =
     ([Inr (), Inl (ValueError ''Exceeds the limit (4300 digits) for integer string conversion'')],
      \<lparr>p_hll = 4, m_hll = 16, registers = [0, 0, 0, 0, 30, 0, 0, 0, 0, 0, 0, 0, 0, 0, 0, 0]\<rparr>) \<and>
   hll_add_each sha1_sample [PyStr ''511658987'']
       \<lparr>p_hll = 4, m_hll = 16, registers = [0, 0, 0, 0, 30, 0, 0, 0, 0, 0, 0, 0, 0, 0, 0, 0]\<rparr> =
     ([Inr ()],
      \<lparr>p_hll = 4, m_hll = 16, registers = [34, 0, 0, 0, 30, 0, 0, 0, 0, 0, 0, 0, 0, 0, 0, 0]\<rparr>) \<and>
   map add_outcome [PyStr ''715906921'', PyInt (10 ^ int_max_str_digits)] =
     [Inr (), Inl (ValueError ''Exceeds the limit (4300 digits) for integer string conversion'')] \<and>
   0 \<le> registers \<lparr>p_hll = 4, m_hll = 16, registers = [0, 0, 0, 0, 30, 0, 0, 0, 0, 0, 0, 0, 0, 0, 0, 0]\<rparr> ! 0 \<and>
   registers \<lparr>p_hll = 4, m_hll = 16, registers = [0, 0, 0, 0, 30, 0, 0, 0, 0, 0, 0, 0, 0, 0, 0, 0]\<rparr> ! 0
     \<le> registers \<lparr>p_hll = 4, m_hll = 16, registers = [34, 0, 0, 0, 30, 0, 0, 0, 0, 0, 0, 0, 0, 0, 0, 0]\<rparr> ! 0 \<and>
   registers \<lparr>p_hll = 4, m_hll = 16, registers = [34, 0, 0, 0, 30, 0, 0, 0, 0, 0, 0, 0, 0, 0, 0, 0]\<rparr> ! 0 \<le> 61"
proof -
  let ?h0 = "\<lparr>p_hll = 4, m_hll = 16, registers = replicate 16 0\<rparr>"
  let ?h1 = "\<lparr>p_hll = 4, m_hll = 16, registers = [0, 0, 0, 0, 30, 0, 0, 0, 0, 0, 0, 0, 0, 0, 0, 0]\<rparr>"
  let ?h2 = "\<lparr>p_hll = 4, m_hll = 16, registers = [34, 0, 0, 0, 30, 0, 0, 0, 0, 0, 0, 0, 0, 0, 0, 0]\<rparr>"
  have r16: "replicate 16 (0::int) = [0, 0, 0, 0, 0, 0, 0, 0, 0, 0, 0, 0, 0, 0, 0, 0]"
    by (simp add: numeral_eq_Suc)
  have big: "HyperLogLog_add sha1_sample (PyInt (10 ^ int_max_str_digits)) ?h1 =
      (Inl (ValueError ''Exceeds the limit (4300 digits) for integer string conversion''), ?h1)"
    by (simp add: HyperLogLog_add_def HyperLogLog_hash_def hash_data_def py_str_int_limit)
  have i: "HyperLogLog_init 4 = Inr ?h0" by (simp add: HyperLogLog_init_def)
  have a: "hll_add_each sha1_sample [PyStr ''715906921'', PyInt (10 ^ int_max_str_digits)] ?h0 =
      ([Inr (), Inl (ValueError ''Exceeds the limit (4300 digits) for integer string conversion'')], ?h1)"
  proof -
    have "HyperLogLog_add sha1_sample (PyStr ''715906921'')
        \<lparr>p_hll = 4, m_hll = 16, registers = [0, 0, 0, 0, 0, 0, 0, 0, 0, 0, 0, 0, 0, 0, 0, 0]\<rparr> = (Inr (), ?h1)"
      using HyperLogLog_add_eval [of
          "\<lparr>p_hll = 4, m_hll = 16, registers = [0, 0, 0, 0, 0, 0, 0, 0, 0, 0, 0, 0, 0, 0, 0, 0]\<rparr>"
          "PyStr ''715906921''" "''715906921''" sha1_sample 4611686020473995492 4 30]
      by (simp add: sample_defs)
    with big show ?thesis by (simp add: r16)
  qed
  have b: "hll_add_each sha1_sample [PyStr ''511658987''] ?h1 = ([Inr ()], ?h2)"
    using HyperLogLog_add_eval [of ?h1 "PyStr ''511658987''" "''511658987''" sha1_sample 110532643 0 26]
    by (simp add: sample_defs)
  have o: "map add_outcome [PyStr ''715906921'', PyInt (10 ^ int_max_str_digits)] =
     [Inr (), Inl (ValueError ''Exceeds the limit (4300 digits) for integer string conversion'')]"
    by (simp add: add_outcome_def hash_data_def py_str_int_limit)
  have "\<forall>j < 2 ^ nat 4. 0 \<le> registers ?h1 ! j \<and> registers ?h1 ! j \<le> registers ?h2 ! j \<and>
      registers ?h2 ! j \<le> (64 - 4) + 1"
    using register_invariant [OF i a b] by blast
  then have "0 \<le> registers ?h1 ! 0 \<and> registers ?h1 ! 0 \<le> registers ?h2 ! 0 \<and>
      registers ?h2 ! 0 \<le> 61" by simp
  with i a b o show ?thesis by blast
qed

section \<open>String forms of items\<close>

lemma check_loop_keys:
  "check_loop H pwds acc bloom = (Inr results, bloom') \<Longrightarrow>
   Inr ` fst ` set results = Inr ` fst ` set acc \<union> py_str ` set pwds"
proof (induction pwds arbitrary: acc bloom)
  case Nil
  then show ?case by simp
next
  case (Cons pwd rest)
  from Cons.prems obtain status b2 key where
    key: "py_str pwd = Inr key"
    and run: "check_loop H rest (AList.update key status acc) b2 = (Inr results, bloom')"
    by (auto split: sum.splits prod.splits if_splits)
  from Cons.IH [OF run] key show ?case by (auto simp: dom_update)
qed

text \<open>
  C3, as the code has it. Adding an item to the filter, or testing it, is adding or
  testing its normalized string, where \<open>None\<close> normalizes to the empty string and any
  other value to \<open>str(value)\<close> (and the call raises what \<open>str\<close> raises); the
  string hashed for a salt is that string followed by the salt's digits. The report
  of \<open>check_password_uniqueness\<close> is keyed by \<open>str(pwd)\<close> and the estimator
  hashes \<open>str(value)\<close>, without the special case: for \<open>None\<close> both are the text
  \<open>None\<close>. The three string forms agree on every value other than \<open>None\<close>.
\<close>

theorem normalization_amended:
  "BloomFilter_add H item bloom =
     (case BloomFilter_normalize item of
        Inl e \<Rightarrow> (Inl e, bloom)
      | Inr s \<Rightarrow> BloomFilter_add H (PyStr s) bloom) \<and>
   BloomFilter_contains H item bloom =
     (case BloomFilter_normalize item of
        Inl e \<Rightarrow> (Inl e, bloom)
      | Inr s \<Rightarrow> BloomFilter_contains H (PyStr s) bloom) \<and>
   hashes_data s i = (case py_str (PyInt i) of Inl e \<Rightarrow> Inl e | Inr t \<Rightarrow> Inr (s @ t)) \<and>
   BloomFilter_normalize PyNone = Inr [] \<and>
   (item \<noteq> PyNone \<longrightarrow> BloomFilter_normalize item = py_str item) \<and>
   hash_data item = py_str item \<and>
   py_str PyNone = Inr ''None'' \<and>
   (check_password_uniqueness H bloom new_passwords = (Inr results, bloom') \<longrightarrow>
      Inr ` fst ` set results = py_str ` set new_passwords)"
  using check_loop_keys [of H new_passwords "[]" bloom results bloom']
  by (simp add: BloomFilter_add_def BloomFilter_contains_def BloomFilter_normalize_def hash_data_def
      hashes_data_def check_password_uniqueness_def split: sum.splits)

theorem normalization_amended_witness:
  "PyInt 5 \<noteq> PyNone \<and>
   check_password_uniqueness length \<lparr>size_bf = 7, num_hashes = 3, bit_array = replicate 7 0\<rparr>
       [PyNone, PyStr []] =
     (Inr [(''None'', Unique), ([], Already_used)],
      \<lparr>size_bf = 7, num_hashes = 3, bit_array = [0, 1, 0, 0, 0, 0, 0]\<rparr>) \<and>
   BloomFilter_add length (PyInt 5) \<lparr>size_bf = 7, num_hashes = 3, bit_array = replicate 7 0\<rparr> =
     (case BloomFilter_normalize (PyInt 5) of
        Inl e \<Rightarrow> (Inl e, \<lparr>size_bf = 7, num_hashes = 3, bit_array = replicate 7 0\<rparr>)
      | Inr s \<Rightarrow> BloomFilter_add length (PyStr s) \<lparr>size_bf = 7, num_hashes = 3, bit_array = replicate 7 0\<rparr>) \<and>
   BloomFilter_normalize (PyInt 5) = py_str (PyInt 5) \<and>
   hash_data (PyInt 5) = py_str (PyInt 5) \<and>
   Inr ` fst ` set [(''None'', Unique), ([], Already_used)] = py_str ` set [PyNone, PyStr []]"
proof -
  have run: "check_password_uniqueness length \<lparr>size_bf = 7, num_hashes = 3, bit_array = replicate 7 0\<rparr>
       [PyNone, PyStr []] =
     (Inr [(''None'', Unique), ([], Already_used)],
      \<lparr>size_bf = 7, num_hashes = 3, bit_array = [0, 1, 0, 0, 0, 0, 0]\<rparr>)"
    by (simp add: check_password_uniqueness_def bloom_eval AList.update.simps)
  have ne: "PyInt 5 \<noteq> PyNone" by simp
  from normalization_amended [of length "PyInt 5"
      "\<lparr>size_bf = 7, num_hashes = 3, bit_array = replicate 7 0\<rparr>" "[]" 0 "[PyNone, PyStr []]"
      "[(''None'', Unique), ([], Already_used)]"
      "\<lparr>size_bf = 7, num_hashes = 3, bit_array = [0, 1, 0, 0, 0, 0, 0]\<rparr>"] run ne
  show ?thesis by blast
qed

text \<open>
  C3, as the specification states it, fails at \<open>None\<close>: the filter normalizes it to
  the empty string, while the estimator hashes the four characters \<open>None\<close> and the
  report of a check of the one password \<open>None\<close> has the key \<open>None\<close>.
\<close>

theorem normalization_counterexample:
  "BloomFilter_normalize PyNone = Inr [] \<and>
   hash_data PyNone = Inr ''None'' \<and>
   hash_data PyNone \<noteq> BloomFilter_normalize PyNone \<and>
   fst (check_password_uniqueness length \<lparr>size_bf = 7, num_hashes = 3, bit_array = replicate 7 0\<rparr>
          [PyNone]) = Inr [(''None'', Unique)] \<and>
   Inr ''None'' \<noteq> BloomFilter_normalize PyNone"
  by (simp add: hash_data_def check_password_uniqueness_def bloom_eval AList.update.simps)

section \<open>The estimate on valid states\<close>

lemma Z_eq: "sum_list (map (\<lambda>v. 2 powi (- v)) regs) = spec_Z regs"
proof -
  have "(2::real) powi (- v) = 2 powr (- real_of_int v)" for v :: int
    using powr_real_of_int' [of "2::real" "- v"] by simp
  then show ?thesis by (simp add: spec_Z_def)
qed

lemma spec_Z_pos: "regs \<noteq> [] \<Longrightarrow> 0 < spec_Z regs"
proof (cases regs)
  case Nil
  assume "regs \<noteq> []"
  with Nil show ?thesis by simp
next
  case (Cons r rest)
  have "0 \<le> sum_list (map (\<lambda>r. 2 powr (- real_of_int r)) rest)"
    by (rule sum_list_nonneg) auto
  moreover have "0 < (2::real) powr (- real_of_int r)" by simp
  ultimately have "0 < 2 powr (- real_of_int r) + sum_list (map (\<lambda>r. 2 powr (- real_of_int r)) rest)"
    by (rule add_pos_nonneg [rotated])
  then show ?thesis by (simp add: spec_Z_def Cons)
qed

lemma count_zero: "count_list regs 0 = zero_registers regs"
  by (induction regs) (simp_all add: zero_registers_def)

lemma zero_registers_le: "zero_registers regs \<le> length regs"
  by (simp add: zero_registers_def)

lemma alpha_m_spec: "m \<noteq> 0 \<Longrightarrow> alpha_m m = Inr (spec_alpha m)"
  by (simp add: alpha_m_def spec_alpha_def)

lemma hll_valid_m:
  assumes "hll_valid self"
  shows "16 \<le> m_hll self" and "m_hll self \<le> 65536" and "registers self \<noteq> []"
    and "length (registers self) = nat (m_hll self)"
    and "ln (real_of_int (m_hll self)) \<le> 16"
proof -
  from assms have p: "4 \<le> p_hll self" "p_hll self \<le> 16" and m: "m_hll self = 2 ^ nat (p_hll self)"
    and len: "length (registers self) = nat (m_hll self)" by (simp_all add: hll_valid_def)
  have "(2::int) ^ 4 \<le> 2 ^ nat (p_hll self)" using p by (intro power_increasing) simp_all
  then show lo: "16 \<le> m_hll self" using m by simp
  have "(2::int) ^ nat (p_hll self) \<le> 2 ^ 16" using p by (intro power_increasing) simp_all
  then show "m_hll self \<le> 65536" using m by simp
  show "registers self \<noteq> []" using len lo by auto
  show "length (registers self) = nat (m_hll self)" by (rule len)
  have "ln (real_of_int (m_hll self)) = real (nat (p_hll self)) * ln 2"
    by (simp add: m ln_realpow)
  also have "\<dots> \<le> 16 * 1"
  proof (rule mult_mono)
    show "real (nat (p_hll self)) \<le> 16" using p by simp
    show "ln (2::real) \<le> 1" using ln_le_minus_one [of "2::real"] by simp
  qed simp_all
  finally show "ln (real_of_int (m_hll self)) \<le> 16" by simp
qed

lemma count_value_valid:
  assumes "hll_valid self"
  shows "count_value self =
     (if corrected_estimate self > 2 ^ 32 / 30
      then (if 2 ^ 32 \<le> corrected_estimate self then Inl (ValueError ''math domain error'')
            else Inr (- (2 ^ 32) * ln (1 - corrected_estimate self / 2 ^ 32)))
      else Inr (corrected_estimate self))"
proof -
  note m = hll_valid_m [OF assms]
  have a: "alpha_m (m_hll self) = Inr (spec_alpha (m_hll self))"
    using m(1) by (intro alpha_m_spec) simp
  have Z: "spec_Z (registers self) \<noteq> 0" using spec_Z_pos [OF m(3)] by simp
  have E: "spec_alpha (m_hll self) * real_of_int ((m_hll self)\<^sup>2) / spec_Z (registers self)
      = raw_estimate self"
    by (simp add: raw_estimate_def)
  have sm: "(raw_estimate self \<le> 5 * real_of_int (m_hll self) / 2 \<and> zero_registers (registers self) \<noteq> 0)
      = small_range self"
    by (auto simp: small_range_def)
  have lg: "math_log (real_of_int (m_hll self) / real (zero_registers (registers self)))
      = Inr (ln (real_of_int (m_hll self) / real (zero_registers (registers self))))"
    if "small_range self"
  proof -
    from that have "0 < real (zero_registers (registers self))" by (simp add: small_range_def)
    moreover have "0 < real_of_int (m_hll self)" using m(1) by simp
    ultimately have "0 < real_of_int (m_hll self) / real (zero_registers (registers self))"
      by (rule divide_pos_pos [rotated])
    then show ?thesis by (simp add: math_log_def)
  qed
  have inner: "(if raw_estimate self \<le> 5 * real_of_int (m_hll self) / 2 \<and> zero_registers (registers self) \<noteq> 0
        then (case math_log (real_of_int (m_hll self) / real (zero_registers (registers self))) of
                Inl e \<Rightarrow> Inl e
              | Inr l \<Rightarrow> Inr (real_of_int (m_hll self) * l))
        else Inr (raw_estimate self)) = Inr (corrected_estimate self)"
    unfolding sm using lg by (simp add: corrected_estimate_def linear_counting_def)
  have two32: "real_of_int (push_bit 32 1) = 2 ^ 32" by simp
  have dom: "(1 - x / 2 ^ 32 \<le> 0) = (2 ^ 32 \<le> x)" for x :: real by (simp add: field_simps)
  have "count_value self =
      (case Inr (corrected_estimate self) of
         Inl e \<Rightarrow> Inl e
       | Inr E1 \<Rightarrow>
           (if E1 > real_of_int (push_bit 32 1) / 30
            then (case math_log (1 - E1 / real_of_int (push_bit 32 1)) of
                    Inl e \<Rightarrow> Inl e
                  | Inr l \<Rightarrow> Inr (- real_of_int (push_bit 32 1) * l))
            else Inr E1))"
    by (simp only: count_value_def Let_def a sum.case Z_eq Z if_False count_zero E inner)
  also have "\<dots> =
      (if corrected_estimate self > 2 ^ 32 / 30
       then (if 2 ^ 32 \<le> corrected_estimate self then Inl (ValueError ''math domain error'')
             else Inr (- (2 ^ 32) * ln (1 - corrected_estimate self / 2 ^ 32)))
       else Inr (corrected_estimate self))"
    by (simp only: sum.case two32 math_log_def dom if_distrib [of "case_sum Inl _"] sum.case cong: if_cong)
  finally show ?thesis .
qed

lemmas eval_defs = raw_estimate_def spec_alpha_def spec_Z_def small_range_def zero_registers_def
  corrected_estimate_def linear_counting_def hll_valid_def MAX_BITS_def powr_neg_numeral
  sum_list_replicate



section \<open>The estimate in float arithmetic\<close>

lemma fp_sane_int:
  assumes "fp_sane fl fsum flog" and "\<bar>n\<bar> \<le> 2 ^ 33"
  shows "fl (real_of_int n) = real_of_int n"
proof -
  from assms(2) have "\<bar>2 * n\<bar> \<le> 2 ^ 34" by simp
  with assms(1) have "fl (real_of_int (2 * n) / 2) = real_of_int (2 * n) / 2"
    unfolding fp_sane_def by blast
  then show ?thesis by simp
qed

lemma fp_sane_half:
  assumes "fp_sane fl fsum flog" and "\<bar>n\<bar> \<le> 2 ^ 34"
  shows "fl (real_of_int n / 2) = real_of_int n / 2"
  using assms unfolding fp_sane_def by blast

lemma fp_sane_mono: "fp_sane fl fsum flog \<Longrightarrow> x \<le> y \<Longrightarrow> fl x \<le> fl y"
  unfolding fp_sane_def by blast

lemma fp_sane_ge1:
  assumes "fp_sane fl fsum flog" and "1 \<le> x"
  shows "1 \<le> fl x"
proof -
  have "fl (real_of_int 1) = real_of_int 1" by (rule fp_sane_int [OF assms(1)]) simp
  with fp_sane_mono [OF assms] show ?thesis by simp
qed

lemma fp_sane_nonneg:
  assumes "fp_sane fl fsum flog" and "0 \<le> x"
  shows "0 \<le> fl x"
proof -
  have "fl (real_of_int 0) = real_of_int 0" by (rule fp_sane_int [OF assms(1)]) simp
  with fp_sane_mono [OF assms] show ?thesis by simp
qed

lemma alpha_m_fp_valid:
  assumes "fp_sane fl fsum flog" and "16 \<le> m"
  shows "alpha_m_fp fl m = Inr (alpha_fp fl m)"
proof -
  have "0 \<le> fl 1.079" by (rule fp_sane_nonneg [OF assms(1)]) simp
  then have "0 \<le> fl 1.079 / real_of_int m" using assms(2) by simp
  then have "0 \<le> fl (fl 1.079 / real_of_int m)" by (rule fp_sane_nonneg [OF assms(1)])
  then have "1 \<le> 1 + fl (fl 1.079 / real_of_int m)" by simp
  then have "1 \<le> fl (1 + fl (fl 1.079 / real_of_int m))" by (rule fp_sane_ge1 [OF assms(1)])
  then have "fl (1 + fl (fl 1.079 / real_of_int m)) \<noteq> 0" by simp
  then show ?thesis using assms(2) by (simp add: alpha_m_fp_def alpha_fp_def Let_def)
qed

lemma Z_fp_eq: "fsum (map (\<lambda>v. 2 powi (- v)) regs) = Z_fp fsum regs"
proof -
  have "(2::real) powi (- v) = 2 powr (- real_of_int v)" for v :: int
    using powr_real_of_int' [of "2::real" "- v"] by simp
  then show ?thesis by (simp add: Z_fp_def)
qed

lemma Z_fp_pos:
  assumes "fp_sane fl fsum flog" and "regs \<noteq> []"
  shows "0 < Z_fp fsum regs"
proof -
  have "map (\<lambda>r. 2 powr (- real_of_int r)) regs \<noteq> []" using assms(2) by simp
  moreover have "\<forall>x \<in> set (map (\<lambda>r. 2 powr (- real_of_int r)) regs). (0::real) < x" by auto
  ultimately show ?thesis using assms(1) unfolding fp_sane_def Z_fp_def by blast
qed

lemma linear_counting_fp_bound:
  assumes "hll_valid self" and "fp_sane fl fsum flog" and "0 < zero_registers (registers self)"
  shows "fp_log flog (fl (real_of_int (m_hll self) / real (zero_registers (registers self)))) =
           Inr (flog (fl (real_of_int (m_hll self) / real (zero_registers (registers self)))))"
    and "\<not> linear_counting_fp fl flog self > fl (2 ^ 32 / 30)"
proof -
  note m = hll_valid_m [OF assms(1)]
  define M where "M = real_of_int (m_hll self)"
  define V where "V = real (zero_registers (registers self))"
  have M: "16 \<le> M" "M \<le> 65536" using m(1,2) by (simp_all add: M_def)
  have V1: "1 \<le> V" using assms(3) by (simp add: V_def Suc_le_eq [symmetric])
  have "zero_registers (registers self) \<le> nat (m_hll self)"
    using zero_registers_le [of "registers self"] m(4) by simp
  then have VM: "V \<le> M"
    using m(1) by (simp add: V_def M_def nat_le_iff of_nat_le_iff [symmetric] del: of_nat_le_iff)
  have q1: "1 \<le> M / V" using V1 VM by (simp add: le_divide_eq)
  have q2: "M / V \<le> 65536" using V1 M by (simp add: divide_le_eq mult_le_cancel_left1)
  have f1: "1 \<le> fl (M / V)" using q1 by (rule fp_sane_ge1 [OF assms(2)])
  have "fl (real_of_int 65536) = real_of_int 65536" by (rule fp_sane_int [OF assms(2)]) simp
  with fp_sane_mono [OF assms(2) q2] have f2: "fl (M / V) \<le> 65536" by simp
  from f1 show "fp_log flog (fl (real_of_int (m_hll self) / real (zero_registers (registers self)))) =
           Inr (flog (fl (real_of_int (m_hll self) / real (zero_registers (registers self)))))"
    by (simp add: fp_log_def M_def V_def)
  from assms(2) f1 f2 have l: "0 \<le> flog (fl (M / V))" "flog (fl (M / V)) \<le> 16"
    unfolding fp_sane_def by blast+
  have "M * flog (fl (M / V)) \<le> 65536 * 16" using M l by (intro mult_mono) simp_all
  then have "M * flog (fl (M / V)) \<le> real_of_int 1048576" by simp
  from fp_sane_mono [OF assms(2) this]
  have "fl (M * flog (fl (M / V))) \<le> fl (real_of_int 1048576)" .
  also have "\<dots> \<le> fl (2 ^ 32 / 30)" by (rule fp_sane_mono [OF assms(2)]) simp
  finally show "\<not> linear_counting_fp fl flog self > fl (2 ^ 32 / 30)"
    by (simp add: linear_counting_fp_def M_def V_def)
qed

lemma threshold_fp:
  assumes "fp_sane fl fsum flog" and "16 \<le> m" and "m \<le> 65536"
  shows "fl (fl (5 * real_of_int m) / 2) = 2.5 * real_of_int m"
proof -
  have "fl (real_of_int (5 * m)) = real_of_int (5 * m)"
    by (rule fp_sane_int [OF assms(1)]) (use assms(2,3) in simp)
  then have a: "fl (5 * real_of_int m) = real_of_int (5 * m)" by simp
  have "fl (real_of_int (5 * m) / 2) = real_of_int (5 * m) / 2"
    by (rule fp_sane_half [OF assms(1)]) (use assms(2,3) in simp)
  then show ?thesis by (simp add: a)
qed

lemma count_fp_valid:
  assumes "hll_valid self" and "fp_sane fl fsum flog"
  shows "count_fp fl fsum flog self =
     (if small_range_fp fl fsum self then Inr (linear_counting_fp fl flog self)
      else if raw_estimate_fp fl fsum self > fl (2 ^ 32 / 30)
           then (case fp_log flog (fl (1 - fl (raw_estimate_fp fl fsum self / 2 ^ 32))) of
                   Inl e \<Rightarrow> Inl e
                 | Inr l \<Rightarrow> Inr (fl (- (2 ^ 32) * l)))
           else Inr (raw_estimate_fp fl fsum self))"
proof -
  note m = hll_valid_m [OF assms(1)]
  have a: "alpha_m_fp fl (m_hll self) = Inr (alpha_fp fl (m_hll self))"
    using assms(2) m(1) by (rule alpha_m_fp_valid)
  have ne: "(registers self = []) = False" using m(3) by simp
  have Z: "(Z_fp fsum (registers self) = 0) = False"
    using Z_fp_pos [OF assms(2) m(3)] by simp
  have E: "fl (fl (alpha_fp fl (m_hll self) * real_of_int ((m_hll self)\<^sup>2)) / Z_fp fsum (registers self))
      = raw_estimate_fp fl fsum self"
    by (simp add: raw_estimate_fp_def)
  have thr: "fl (fl (5 * real_of_int (m_hll self)) / 2) = 2.5 * real_of_int (m_hll self)"
    using assms(2) m(1,2) by (rule threshold_fp)
  have sm: "(raw_estimate_fp fl fsum self \<le> 2.5 * real_of_int (m_hll self) \<and>
      zero_registers (registers self) \<noteq> 0) = small_range_fp fl fsum self"
    by (auto simp: small_range_fp_def)
  have two32: "real_of_int (push_bit 32 1) = 2 ^ 32" by simp
  have step: "count_fp fl fsum flog self =
      (case (if small_range_fp fl fsum self
             then (case fp_log flog (fl (real_of_int (m_hll self) / real (zero_registers (registers self)))) of
                     Inl e \<Rightarrow> Inl e
                   | Inr l \<Rightarrow> Inr (fl (real_of_int (m_hll self) * l)))
             else Inr (raw_estimate_fp fl fsum self)) of
         Inl e \<Rightarrow> Inl e
       | Inr E1 \<Rightarrow>
           (if E1 > fl (2 ^ 32 / 30)
            then (case fp_log flog (fl (1 - fl (E1 / 2 ^ 32))) of
                    Inl e \<Rightarrow> Inl e
                  | Inr l \<Rightarrow> Inr (fl (- (2 ^ 32) * l)))
            else Inr E1))"
    by (simp only: count_fp_def Let_def a sum.case ne if_False Z_fp_eq Z count_zero E thr sm two32)
  show ?thesis
  proof (cases "small_range_fp fl fsum self")
    case True
    then have z: "0 < zero_registers (registers self)" by (simp add: small_range_fp_def)
    note lc = linear_counting_fp_bound [OF assms z]
    have "fl (real_of_int (m_hll self) *
         flog (fl (real_of_int (m_hll self) / real (zero_registers (registers self))))) =
        linear_counting_fp fl flog self" by (simp add: linear_counting_fp_def)
    with lc(2) True show ?thesis
      by (simp only: step if_True lc(1) sum.case if_False)
  next
    case False
    then show ?thesis by (simp only: step if_False sum.case)
  qed
qed

text \<open>
  C4. Estimation formula, in the float arithmetic of the code: on a constructed
  estimator \<open>count\<close> uses the bias constant of the specification (0.673, 0.697, 0.709
  for 16, 32, 64 registers, and \<open>0.7213 / (1 + 1.079 / m)\<close> otherwise), the sum \<open>Z\<close> of
  \<open>2 ^ (- register)\<close> and the raw estimate \<open>alpha * m^2 / Z\<close>. When the raw estimate
  it has computed is at most \<open>2.5 * m\<close> and some register is zero it returns
  \<open>m * log (m / V)\<close>, \<open>V\<close> the number of zero registers, and the large-range branch
  does not apply to that value; otherwise, while the raw estimate is at most the
  threshold \<open>2^32 / 30\<close>, it returns the raw estimate. This holds for every rounding,
  sum and logarithm that meet \<open>fp_sane\<close>.
\<close>

theorem estimation_formula:
  assumes "hll_valid self" and "fp_sane fl fsum flog"
  shows "alpha_m_fp fl (m_hll self) = Inr (alpha_fp fl (m_hll self)) \<and>
         (small_range_fp fl fsum self \<longrightarrow>
            fst (HyperLogLog_count_fp fl fsum flog self) = Inr (linear_counting_fp fl flog self)) \<and>
         (\<not> small_range_fp fl fsum self \<and> raw_estimate_fp fl fsum self \<le> fl (2 ^ 32 / 30) \<longrightarrow>
            fst (HyperLogLog_count_fp fl fsum flog self) = Inr (raw_estimate_fp fl fsum self))"
proof -
  have a: "alpha_m_fp fl (m_hll self) = Inr (alpha_fp fl (m_hll self))"
    using assms(2) hll_valid_m(1) [OF assms(1)] by (rule alpha_m_fp_valid)
  have s: "fst (HyperLogLog_count_fp fl fsum flog self) = Inr (linear_counting_fp fl flog self)"
    if "small_range_fp fl fsum self"
    using that by (simp only: HyperLogLog_count_fp_def fst_conv count_fp_valid [OF assms] if_True)
  have r: "fst (HyperLogLog_count_fp fl fsum flog self) = Inr (raw_estimate_fp fl fsum self)"
    if "\<not> small_range_fp fl fsum self" "raw_estimate_fp fl fsum self \<le> fl (2 ^ 32 / 30)"
  proof -
    from that(2) have "\<not> raw_estimate_fp fl fsum self > fl (2 ^ 32 / 30)" by simp
    with that(1) show ?thesis
      by (simp only: HyperLogLog_count_fp_def fst_conv count_fp_valid [OF assms] if_False)
  qed
  from a s r show ?thesis by blast
qed

lemma sum_list_pos_real:
  fixes xs :: "real list"
  shows "xs \<noteq> [] \<Longrightarrow> (\<forall>x \<in> set xs. 0 < x) \<Longrightarrow> 0 < sum_list xs"
proof (induction xs)
  case Nil
  then show ?case by simp
next
  case (Cons x xs)
  have "0 \<le> sum_list xs" using Cons.prems(2) by (intro sum_list_nonneg) (simp add: less_imp_le)
  moreover have "0 < x" using Cons.prems(2) by simp
  ultimately show ?case by simp
qed

lemma ln_le_16:
  assumes "1 \<le> x" and "x \<le> 65536"
  shows "ln x \<le> (16::real)"
proof -
  have "ln x \<le> ln (2 ^ 16)" using assms by (intro ln_mono) simp_all
  also have "\<dots> = 16 * ln (2::real)" by (simp only: ln_realpow)
  also have "\<dots> \<le> 16 * 1"
    using ln_le_minus_one [of "2::real"] by (intro mult_left_mono) simp_all
  finally show ?thesis by simp
qed

lemma fp_sane_exact: "fp_sane (\<lambda>x. x) sum_list ln"
  unfolding fp_sane_def
  using sum_list_pos_real ln_le_16 by (auto intro: ln_ge_zero)

lemma exact_reading:
  "alpha_fp (\<lambda>x. x) m = spec_alpha m"
  "Z_fp sum_list regs = spec_Z regs"
  "raw_estimate_fp (\<lambda>x. x) sum_list self = raw_estimate self"
  "linear_counting_fp (\<lambda>x. x) ln self = linear_counting self"
  "small_range_fp (\<lambda>x. x) sum_list self = small_range self"
  by (simp_all add: alpha_fp_def spec_alpha_def Z_fp_def spec_Z_def raw_estimate_fp_def
      raw_estimate_def linear_counting_fp_def linear_counting_def small_range_fp_def small_range_def)

lemma count_value_exact:
  assumes "hll_valid self"
  shows "count_fp (\<lambda>x. x) sum_list ln self = count_value self"
proof -
  have dom: "(1 - x / 2 ^ 32 \<le> 0) = (2 ^ 32 \<le> x)" for x :: real by (simp add: field_simps)
  have big: "\<not> 2 ^ 32 / 30 < linear_counting self" if "small_range self"
    using linear_counting_fp_bound(2) [OF assms fp_sane_exact] that
    by (simp add: exact_reading small_range_def)
  show ?thesis
    unfolding count_fp_valid [OF assms fp_sane_exact] count_value_valid [OF assms] exact_reading
    using big by (auto simp: corrected_estimate_def fp_log_def dom)
qed

theorem estimation_formula_witness:
  "hll_valid \<lparr>p_hll = 4, m_hll = 16, registers = [0, 0, 0, 0, 30, 0, 0, 0, 0, 0, 0, 0, 0, 0, 0, 0]\<rparr> \<and>
   fp_sane (\<lambda>x. x) sum_list ln \<and>
   small_range_fp (\<lambda>x. x) sum_list
     \<lparr>p_hll = 4, m_hll = 16, registers = [0, 0, 0, 0, 30, 0, 0, 0, 0, 0, 0, 0, 0, 0, 0, 0]\<rparr> \<and>
   fst (HyperLogLog_count_fp (\<lambda>x. x) sum_list ln
          \<lparr>p_hll = 4, m_hll = 16, registers = [0, 0, 0, 0, 30, 0, 0, 0, 0, 0, 0, 0, 0, 0, 0, 0]\<rparr>) =
     Inr (16 * ln (16 / 15)) \<and>
   count_fp (\<lambda>x. x) sum_list ln
     \<lparr>p_hll = 4, m_hll = 16, registers = [0, 0, 0, 0, 30, 0, 0, 0, 0, 0, 0, 0, 0, 0, 0, 0]\<rparr> =
     count_value \<lparr>p_hll = 4, m_hll = 16, registers = [0, 0, 0, 0, 30, 0, 0, 0, 0, 0, 0, 0, 0, 0, 0, 0]\<rparr> \<and>
   alpha_m_fp (\<lambda>x. x) 16 = Inr 0.673 \<and>
   hll_valid \<lparr>p_hll = 4, m_hll = 16, registers = replicate 16 1\<rparr> \<and>
   \<not> small_range_fp (\<lambda>x. x) sum_list \<lparr>p_hll = 4, m_hll = 16, registers = replicate 16 1\<rparr> \<and>
   raw_estimate_fp (\<lambda>x. x) sum_list \<lparr>p_hll = 4, m_hll = 16, registers = replicate 16 1\<rparr> \<le> 2 ^ 32 / 30 \<and>
   fst (HyperLogLog_count_fp (\<lambda>x. x) sum_list ln \<lparr>p_hll = 4, m_hll = 16, registers = replicate 16 1\<rparr>) =
     Inr 21.536"
proof -
  let ?A = "\<lparr>p_hll = 4, m_hll = 16, registers = [0, 0, 0, 0, 30, 0, 0, 0, 0, 0, 0, 0, 0, 0, 0, 0]\<rparr>"
  let ?B = "\<lparr>p_hll = 4, m_hll = 16, registers = replicate 16 1\<rparr>"
  have vA: "hll_valid ?A" by (simp add: eval_defs)
  have sA: "small_range_fp (\<lambda>x. x) sum_list ?A" by (simp add: exact_reading eval_defs)
  have lA: "linear_counting_fp (\<lambda>x. x) ln ?A = 16 * ln (16 / 15)" by (simp add: exact_reading eval_defs)
  have vB: "hll_valid ?B" by (simp add: eval_defs)
  have sB: "\<not> small_range_fp (\<lambda>x. x) sum_list ?B" by (simp add: exact_reading eval_defs)
  have rB: "raw_estimate_fp (\<lambda>x. x) sum_list ?B = 21.536" by (simp add: exact_reading eval_defs)
  have aA: "alpha_fp (\<lambda>x. x) 16 = 0.673" by (simp add: exact_reading eval_defs)
  from estimation_formula [OF vA fp_sane_exact] estimation_formula [OF vB fp_sane_exact]
    vA sA lA vB sB rB aA fp_sane_exact count_value_exact [OF vA]
  show ?thesis by simp
qed

section \<open>Saturated registers\<close>

lemma sample_add_1:
  "HyperLogLog_add sha1_sample (PyStr ''511658987'')
     \<lparr>p_hll = 4, m_hll = 16, registers = [0, 0, 0, 0, 0, 0, 0, 0, 0, 0, 0, 0, 0, 0, 0, 0]\<rparr> =
   (Inr (), \<lparr>p_hll = 4, m_hll = 16, registers = [34, 0, 0, 0, 0, 0, 0, 0, 0, 0, 0, 0, 0, 0, 0, 0]\<rparr>)"
  using HyperLogLog_add_eval [of "\<lparr>p_hll = 4, m_hll = 16, registers = [0, 0, 0, 0, 0, 0, 0, 0, 0, 0, 0, 0, 0, 0, 0, 0]\<rparr>"
      "PyStr ''511658987''" "''511658987''" sha1_sample 110532643 0 26]
  by (simp add: sample_defs)

lemma sample_add_2:
  "HyperLogLog_add sha1_sample (PyStr ''3511228267'')
     \<lparr>p_hll = 4, m_hll = 16, registers = [34, 0, 0, 0, 0, 0, 0, 0, 0, 0, 0, 0, 0, 0, 0, 0]\<rparr> =
   (Inr (), \<lparr>p_hll = 4, m_hll = 16, registers = [34, 28, 0, 0, 0, 0, 0, 0, 0, 0, 0, 0, 0, 0, 0, 0]\<rparr>)"
  using HyperLogLog_add_eval [of "\<lparr>p_hll = 4, m_hll = 16, registers = [34, 0, 0, 0, 0, 0, 0, 0, 0, 0, 0, 0, 0, 0, 0, 0]\<rparr>"
      "PyStr ''3511228267''" "''3511228267''" sha1_sample 1152921510812704598 1 32]
  by (simp add: sample_defs)

lemma sample_add_3:
  "HyperLogLog_add sha1_sample (PyStr ''1853372825'')
     \<lparr>p_hll = 4, m_hll = 16, registers = [34, 28, 0, 0, 0, 0, 0, 0, 0, 0, 0, 0, 0, 0, 0, 0]\<rparr> =
   (Inr (), \<lparr>p_hll = 4, m_hll = 16, registers = [34, 28, 30, 0, 0, 0, 0, 0, 0, 0, 0, 0, 0, 0, 0, 0]\<rparr>)"
  using HyperLogLog_add_eval [of "\<lparr>p_hll = 4, m_hll = 16, registers = [34, 28, 0, 0, 0, 0, 0, 0, 0, 0, 0, 0, 0, 0, 0, 0]\<rparr>"
      "PyStr ''1853372825''" "''1853372825''" sha1_sample 2305843010933943701 2 30]
  by (simp add: sample_defs)

lemma sample_add_4:
  "HyperLogLog_add sha1_sample (PyStr ''2855183258'')
     \<lparr>p_hll = 4, m_hll = 16, registers = [34, 28, 30, 0, 0, 0, 0, 0, 0, 0, 0, 0, 0, 0, 0, 0]\<rparr> =
   (Inr (), \<lparr>p_hll = 4, m_hll = 16, registers = [34, 28, 30, 28, 0, 0, 0, 0, 0, 0, 0, 0, 0, 0, 0, 0]\<rparr>)"
  using HyperLogLog_add_eval [of "\<lparr>p_hll = 4, m_hll = 16, registers = [34, 28, 30, 0, 0, 0, 0, 0, 0, 0, 0, 0, 0, 0, 0, 0]\<rparr>"
      "PyStr ''2855183258''" "''2855183258''" sha1_sample 3458764521440675545 3 32]
  by (simp add: sample_defs)

lemma sample_add_5:
  "HyperLogLog_add sha1_sample (PyStr ''715906921'')
     \<lparr>p_hll = 4, m_hll = 16, registers = [34, 28, 30, 28, 0, 0, 0, 0, 0, 0, 0, 0, 0, 0, 0, 0]\<rparr> =
   (Inr (), \<lparr>p_hll = 4, m_hll = 16, registers = [34, 28, 30, 28, 30, 0, 0, 0, 0, 0, 0, 0, 0, 0, 0, 0]\<rparr>)"
  using HyperLogLog_add_eval [of "\<lparr>p_hll = 4, m_hll = 16, registers = [34, 28, 30, 28, 0, 0, 0, 0, 0, 0, 0, 0, 0, 0, 0, 0]\<rparr>"
      "PyStr ''715906921''" "''715906921''" sha1_sample 4611686020473995492 4 30]
  by (simp add: sample_defs)

lemma sample_add_6:
  "HyperLogLog_add sha1_sample (PyStr ''5594465669'')
     \<lparr>p_hll = 4, m_hll = 16, registers = [34, 28, 30, 28, 30, 0, 0, 0, 0, 0, 0, 0, 0, 0, 0, 0]\<rparr> =
   (Inr (), \<lparr>p_hll = 4, m_hll = 16, registers = [34, 28, 30, 28, 30, 31, 0, 0, 0, 0, 0, 0, 0, 0, 0, 0]\<rparr>)"
  using HyperLogLog_add_eval [of "\<lparr>p_hll = 4, m_hll = 16, registers = [34, 28, 30, 28, 30, 0, 0, 0, 0, 0, 0, 0, 0, 0, 0, 0]\<rparr>"
      "PyStr ''5594465669''" "''5594465669''" sha1_sample 5764607523887153670 5 29]
  by (simp add: sample_defs)

lemma sample_add_7:
  "HyperLogLog_add sha1_sample (PyStr ''1971066763'')
     \<lparr>p_hll = 4, m_hll = 16, registers = [34, 28, 30, 28, 30, 31, 0, 0, 0, 0, 0, 0, 0, 0, 0, 0]\<rparr> =
   (Inr (), \<lparr>p_hll = 4, m_hll = 16, registers = [34, 28, 30, 28, 30, 31, 29, 0, 0, 0, 0, 0, 0, 0, 0, 0]\<rparr>)"
  using HyperLogLog_add_eval [of "\<lparr>p_hll = 4, m_hll = 16, registers = [34, 28, 30, 28, 30, 31, 0, 0, 0, 0, 0, 0, 0, 0, 0, 0]\<rparr>"
      "PyStr ''1971066763''" "''1971066763''" sha1_sample 6917529029859725430 6 31]
  by (simp add: sample_defs)

lemma sample_add_8:
  "HyperLogLog_add sha1_sample (PyStr ''4144281939'')
     \<lparr>p_hll = 4, m_hll = 16, registers = [34, 28, 30, 28, 30, 31, 29, 0, 0, 0, 0, 0, 0, 0, 0, 0]\<rparr> =
   (Inr (), \<lparr>p_hll = 4, m_hll = 16, registers = [34, 28, 30, 28, 30, 31, 29, 29, 0, 0, 0, 0, 0, 0, 0, 0]\<rparr>)"
  using HyperLogLog_add_eval [of "\<lparr>p_hll = 4, m_hll = 16, registers = [34, 28, 30, 28, 30, 31, 29, 0, 0, 0, 0, 0, 0, 0, 0, 0]\<rparr>"
      "PyStr ''4144281939''" "''4144281939''" sha1_sample 8070450535213623913 7 31]
  by (simp add: sample_defs)

lemma sample_add_9:
  "HyperLogLog_add sha1_sample (PyStr ''1738068935'')
     \<lparr>p_hll = 4, m_hll = 16, registers = [34, 28, 30, 28, 30, 31, 29, 29, 0, 0, 0, 0, 0, 0, 0, 0]\<rparr> =
   (Inr (), \<lparr>p_hll = 4, m_hll = 16, registers = [34, 28, 30, 28, 30, 31, 29, 29, 29, 0, 0, 0, 0, 0, 0, 0]\<rparr>)"
  using HyperLogLog_add_eval [of "\<lparr>p_hll = 4, m_hll = 16, registers = [34, 28, 30, 28, 30, 31, 29, 29, 0, 0, 0, 0, 0, 0, 0, 0]\<rparr>"
      "PyStr ''1738068935''" "''1738068935''" sha1_sample 9223372040797428062 8 31]
  by (simp add: sample_defs)

lemma sample_add_10:
  "HyperLogLog_add sha1_sample (PyStr ''3383101817'')
     \<lparr>p_hll = 4, m_hll = 16, registers = [34, 28, 30, 28, 30, 31, 29, 29, 29, 0, 0, 0, 0, 0, 0, 0]\<rparr> =
   (Inr (), \<lparr>p_hll = 4, m_hll = 16, registers = [34, 28, 30, 28, 30, 31, 29, 29, 29, 27, 0, 0, 0, 0, 0, 0]\<rparr>)"
  using HyperLogLog_add_eval [of "\<lparr>p_hll = 4, m_hll = 16, registers = [34, 28, 30, 28, 30, 31, 29, 29, 29, 0, 0, 0, 0, 0, 0, 0]\<rparr>"
      "PyStr ''3383101817''" "''3383101817''" sha1_sample 10376293558458757621 9 33]
  by (simp add: sample_defs)

lemma sample_add_11:
  "HyperLogLog_add sha1_sample (PyStr ''4729903857'')
     \<lparr>p_hll = 4, m_hll = 16, registers = [34, 28, 30, 28, 30, 31, 29, 29, 29, 27, 0, 0, 0, 0, 0, 0]\<rparr> =
   (Inr (), \<lparr>p_hll = 4, m_hll = 16, registers = [34, 28, 30, 28, 30, 31, 29, 29, 29, 27, 29, 0, 0, 0, 0, 0]\<rparr>)"
  using HyperLogLog_add_eval [of "\<lparr>p_hll = 4, m_hll = 16, registers = [34, 28, 30, 28, 30, 31, 29, 29, 29, 27, 0, 0, 0, 0, 0, 0]\<rparr>"
      "PyStr ''4729903857''" "''4729903857''" sha1_sample 11529215049893957187 10 31]
  by (simp add: sample_defs)

lemma sample_add_12:
  "HyperLogLog_add sha1_sample (PyStr ''2965323993'')
     \<lparr>p_hll = 4, m_hll = 16, registers = [34, 28, 30, 28, 30, 31, 29, 29, 29, 27, 29, 0, 0, 0, 0, 0]\<rparr> =
   (Inr (), \<lparr>p_hll = 4, m_hll = 16, registers = [34, 28, 30, 28, 30, 31, 29, 29, 29, 27, 29, 28, 0, 0, 0, 0]\<rparr>)"
  using HyperLogLog_add_eval [of "\<lparr>p_hll = 4, m_hll = 16, registers = [34, 28, 30, 28, 30, 31, 29, 29, 29, 27, 29, 0, 0, 0, 0, 0]\<rparr>"
      "PyStr ''2965323993''" "''2965323993''" sha1_sample 12682136557334488243 11 32]
  by (simp add: sample_defs)

lemma sample_add_13:
  "HyperLogLog_add sha1_sample (PyStr ''5746606839'')
     \<lparr>p_hll = 4, m_hll = 16, registers = [34, 28, 30, 28, 30, 31, 29, 29, 29, 27, 29, 28, 0, 0, 0, 0]\<rparr> =
   (Inr (), \<lparr>p_hll = 4, m_hll = 16, registers = [34, 28, 30, 28, 30, 31, 29, 29, 29, 27, 29, 28, 29, 0, 0, 0]\<rparr>)"
  using HyperLogLog_add_eval [of "\<lparr>p_hll = 4, m_hll = 16, registers = [34, 28, 30, 28, 30, 31, 29, 29, 29, 27, 29, 28, 0, 0, 0, 0]\<rparr>"
      "PyStr ''5746606839''" "''5746606839''" sha1_sample 13835058058596494598 12 31]
  by (simp add: sample_defs)

lemma sample_add_14:
  "HyperLogLog_add sha1_sample (PyStr ''3407338141'')
     \<lparr>p_hll = 4, m_hll = 16, registers = [34, 28, 30, 28, 30, 31, 29, 29, 29, 27, 29, 28, 29, 0, 0, 0]\<rparr> =
   (Inr (), \<lparr>p_hll = 4, m_hll = 16, registers = [34, 28, 30, 28, 30, 31, 29, 29, 29, 27, 29, 28, 29, 31, 0, 0]\<rparr>)"
  using HyperLogLog_add_eval [of "\<lparr>p_hll = 4, m_hll = 16, registers = [34, 28, 30, 28, 30, 31, 29, 29, 29, 27, 29, 28, 29, 0, 0, 0]\<rparr>"
      "PyStr ''3407338141''" "''3407338141''" sha1_sample 14987979560821455633 13 29]
  by (simp add: sample_defs)

lemma sample_add_15:
  "HyperLogLog_add sha1_sample (PyStr ''4307090543'')
     \<lparr>p_hll = 4, m_hll = 16, registers = [34, 28, 30, 28, 30, 31, 29, 29, 29, 27, 29, 28, 29, 31, 0, 0]\<rparr> =
   (Inr (), \<lparr>p_hll = 4, m_hll = 16, registers = [34, 28, 30, 28, 30, 31, 29, 29, 29, 27, 29, 28, 29, 31, 30, 0]\<rparr>)"
  using HyperLogLog_add_eval [of "\<lparr>p_hll = 4, m_hll = 16, registers = [34, 28, 30, 28, 30, 31, 29, 29, 29, 27, 29, 28, 29, 31, 0, 0]\<rparr>"
      "PyStr ''4307090543''" "''4307090543''" sha1_sample 16140901066121888699 14 30]
  by (simp add: sample_defs)

lemma sample_add_16:
  "HyperLogLog_add sha1_sample (PyStr ''5405874656'')
     \<lparr>p_hll = 4, m_hll = 16, registers = [34, 28, 30, 28, 30, 31, 29, 29, 29, 27, 29, 28, 29, 31, 30, 0]\<rparr> =
   (Inr (), \<lparr>p_hll = 4, m_hll = 16, registers = [34, 28, 30, 28, 30, 31, 29, 29, 29, 27, 29, 28, 29, 31, 30, 29]\<rparr>)"
  using HyperLogLog_add_eval [of "\<lparr>p_hll = 4, m_hll = 16, registers = [34, 28, 30, 28, 30, 31, 29, 29, 29, 27, 29, 28, 29, 31, 30, 0]\<rparr>"
      "PyStr ''5405874656''" "''5405874656''" sha1_sample 17293822572393880984 15 31]
  by (simp add: sample_defs)

lemma count_value_saturated:
  "count_value \<lparr>p_hll = 4, m_hll = 16,
      registers = [34, 28, 30, 28, 30, 31, 29, 29, 29, 27, 29, 28, 29, 31, 30, 29]\<rparr> =
     Inl (ValueError ''math domain error'')"
proof -
  let ?D = "\<lparr>p_hll = 4, m_hll = 16,
      registers = [34, 28, 30, 28, 30, 31, 29, 29, 29, 27, 29, 28, 29, 31, 30, 29]\<rparr>"
  have v: "hll_valid ?D" by (simp add: eval_defs)
  have c: "2 ^ 32 \<le> corrected_estimate ?D" by (simp add: eval_defs)
  then have lo: "2 ^ 32 / 30 < corrected_estimate ?D" by simp
  from c lo show ?thesis
    by (simp only: count_value_valid [OF v] if_True)
qed

lemma saturating_adds:
  "hll_add_all sha1_sample saturating_items \<lparr>p_hll = 4, m_hll = 16, registers = replicate 16 0\<rparr> =
     (Inr (), \<lparr>p_hll = 4, m_hll = 16,
        registers = [34, 28, 30, 28, 30, 31, 29, 29, 29, 27, 29, 28, 29, 31, 30, 29]\<rparr>)"
proof -
  have "replicate 16 (0::int) = [0, 0, 0, 0, 0, 0, 0, 0, 0, 0, 0, 0, 0, 0, 0, 0]"
    by (simp add: numeral_eq_Suc)
  then show ?thesis
    by (simp add: saturating_items_def sample_add_1 sample_add_2 sample_add_3 sample_add_4 sample_add_5 sample_add_6 sample_add_7 sample_add_8 sample_add_9 sample_add_10 sample_add_11 sample_add_12 sample_add_13 sample_add_14 sample_add_15 sample_add_16)
qed


text \<open>
  C2. Totality of \<open>estimate\<close> fails on a reachable state: an estimator constructed
  with precision 4 accepts the sixteen items of \<open>saturating_items\<close>, whose SHA-1
  digests give every register a value of at least 27, and \<open>count\<close> then raises
  \<open>ValueError\<close> in its large-range branch, leaving the registers as they are.
\<close>

theorem count_raises_after_adds:
  "HyperLogLog_init 4 = Inr \<lparr>p_hll = 4, m_hll = 16, registers = replicate 16 0\<rparr> \<and>
   hll_add_all sha1_sample saturating_items \<lparr>p_hll = 4, m_hll = 16, registers = replicate 16 0\<rparr> =
     (Inr (), \<lparr>p_hll = 4, m_hll = 16,
        registers = [34, 28, 30, 28, 30, 31, 29, 29, 29, 27, 29, 28, 29, 31, 30, 29]\<rparr>) \<and>
   HyperLogLog_count \<lparr>p_hll = 4, m_hll = 16,
        registers = [34, 28, 30, 28, 30, 31, 29, 29, 29, 27, 29, 28, 29, 31, 30, 29]\<rparr> =
     (Inl (ValueError ''math domain error''), \<lparr>p_hll = 4, m_hll = 16,
        registers = [34, 28, 30, 28, 30, 31, 29, 29, 29, 27, 29, 28, 29, 31, 30, 29]\<rparr>)"
  using saturating_adds count_value_saturated
  by (simp add: HyperLogLog_init_def HyperLogLog_count_def)

end
